theory Spec2Isabelle
  imports Main "HOL-Library.Word"
begin

section \<open>The game backend of grpc-game-example (pkg/backend/backend.go)\<close>

text \<open>
  The theory embeds the backend engine: the entity store with its five operations, the
  throttle table, the single-slot change channel, \<open>MoveAction.Perform\<close>, and the two
  loops started by \<open>Game.Start\<close>.

  Conventions of the embedding.
  \<^item> The mutex \<open>Mu\<close> is not modelled: every operation below is one critical section of
    the Go code, taken as atomic, and a collision tick is taken without interleaving.
  \<^item> \<open>time.Now()\<close> is an argument of the function that reads the clock.
  \<^item> The iteration order of a Go map is unspecified; the order is an argument of the
    loop that ranges over the map, and theorems hold for every order.
  \<^item> A failed type assertion panics; it is the value \<open>Inl Panic\<close>.
  \<^item> The Go map holds pointers to entities. The model keeps, under each key, the
    current value of the object the pointer designates; a Change carries the value
    that its local variable had when it was fetched.
\<close>

subsection \<open>Basic types\<close>

text \<open>\<open>uuid.UUID\<close> is an array of 16 bytes; Go's \<open>int\<close> is taken at 64 bits.\<close>

type_synonym uuid = "128 word"
type_synonym go_int = "64 word"

text \<open>Instants and durations are counted in nanoseconds.\<close>

type_synonym Time = int

datatype Coordinate = Coordinate (X: go_int) (Y: go_int)

datatype Direction =
    DirectionUp
  | DirectionDown
  | DirectionLeft
  | DirectionRight
  | DirectionStop

datatype error = Panic

subsection \<open>Entities\<close>

datatype IdentifierBase = IdentifierBase (UUID: uuid)

text \<open>
  Modelled from the spec: the declarations of the concrete entities \<open>Player\<close> and
  \<open>Laser\<close> are not among the inspected sources. The spec gives a Player an identity, a
  grid position and accumulated respawns, and a Laser an identity, the identity of the
  owning player, a grid position and a direction of travel. The collision loop uses
  both as Positioners (its type switch ranges over Positioner values), reads
  \<open>laser.OwnerID\<close>, and moves players; the spec names no operation that moves a Laser.
\<close>

datatype Player = Player (PlayerBase: IdentifierBase) (CurrentPosition: Coordinate) (Respawns: nat)

datatype Laser =
  Laser (LaserBase: IdentifierBase) (OwnerID: uuid) (LaserPosition: Coordinate)
    (LaserDirection: Direction)

text \<open>
  A value of the interface \<open>Identifier\<close> with its dynamic type: \<open>*Player\<close>, \<open>*Laser\<close>, or
  a bare \<open>IdentifierBase\<close>, which has the method \<open>ID\<close> and nothing else.
\<close>

datatype Identifier =
    PlayerPtr Player
  | LaserPtr Laser
  | BaseVal IdentifierBase

fun ID :: "Identifier \<Rightarrow> uuid" where
  "ID (PlayerPtr p) = UUID (PlayerBase p)"
| "ID (LaserPtr l) = UUID (LaserBase l)"
| "ID (BaseVal b) = UUID b"

text \<open>
  The type assertion \<open>entity.(Positioner)\<close> followed by \<open>Position()\<close>: \<open>None\<close> when the
  dynamic type has no such method.
\<close>

fun Position :: "Identifier \<Rightarrow> Coordinate option" where
  "Position (PlayerPtr p) = Some (CurrentPosition p)"
| "Position (LaserPtr l) = Some (LaserPosition l)"
| "Position (BaseVal b) = None"

text \<open>
  The type assertion \<open>entity.(Mover)\<close> followed by \<open>Move(position)\<close>: the moved entity,
  or \<open>None\<close> when the dynamic type is no Mover.
\<close>

fun MoverMove :: "Identifier \<Rightarrow> Coordinate \<Rightarrow> Identifier option" where
  "MoverMove (PlayerPtr p) c = Some (PlayerPtr (Player (PlayerBase p) c (Respawns p)))"
| "MoverMove (LaserPtr l) c = None"
| "MoverMove (BaseVal b) c = None"

text \<open>Whether the type assertion \<open>entity.(Mover)\<close> holds.\<close>

definition isMover :: "Identifier \<Rightarrow> bool" where
  "isMover entity = (MoverMove entity (Coordinate 0 0) \<noteq> None)"

subsection \<open>Changes and actions\<close>

datatype Change =
    MoveChange Identifier Direction Coordinate
  | AddEntityChange Identifier
  | RemoveEntityChange Identifier
  | PlayerRespawnChange Player

datatype MoveAction = MoveAction (ActionDirection: Direction) (ActionID: uuid)

subsection \<open>The game\<close>

text \<open>
  The field \<open>Offered\<close> is a history variable, not a field of the Go struct: it lists, in
  order, every Change that a \<open>select\<close> statement offered to \<open>ChangeChannel\<close>, whether the
  channel took it or not. No operation reads it.
\<close>

record Game =
  Entities :: "uuid \<rightharpoonup> Identifier"
  ChangeChannel :: "Change list"
  ActionChannel :: "MoveAction list"
  LastAction :: "string \<rightharpoonup> Time"
  Score :: "uuid \<rightharpoonup> go_int"
  IsAuthoritative :: bool
  Offered :: "Change list"

definition NewGame :: Game where
  "NewGame =
     \<lparr> Entities = Map.empty,
       ChangeChannel = [],
       ActionChannel = [],
       LastAction = Map.empty,
       Score = Map.empty,
       IsAuthoritative = True,
       Offered = [] \<rparr>"

text \<open>The first two statements of \<open>main\<close> in cmd/client.go.\<close>

definition client_main_game :: Game where
  "client_main_game = NewGame\<lparr>IsAuthoritative := False\<rparr>"

subsection \<open>The change channel\<close>

text \<open>Both channels are made with capacity 1.\<close>

definition channel_capacity :: nat where
  "channel_capacity = 1"

text \<open>
  \<open>select { case ch <- change: default: }\<close> on a buffered channel: the value is
  appended when the buffer has room, and dropped otherwise. It never blocks.
\<close>

definition trySend :: "'a \<Rightarrow> 'a list \<Rightarrow> 'a list" where
  "trySend c ch = (if length ch < channel_capacity then ch @ [c] else ch)"

definition offer :: "Change \<Rightarrow> Game \<Rightarrow> Game" where
  "offer change game =
     game\<lparr>ChangeChannel := trySend change (ChangeChannel game),
          Offered := Offered game @ [change]\<rparr>"

subsection \<open>The entity store\<close>

definition AddEntity :: "Identifier \<Rightarrow> Game \<Rightarrow> Game" where
  "AddEntity entity game = game\<lparr>Entities := (Entities game)(ID entity \<mapsto> entity)\<rparr>"

definition UpdateEntity :: "Identifier \<Rightarrow> Game \<Rightarrow> Game" where
  "UpdateEntity entity game = game\<lparr>Entities := (Entities game)(ID entity \<mapsto> entity)\<rparr>"

text \<open>Reading a missing key of the Go map gives the nil interface: \<open>None\<close>.\<close>

definition GetEntity :: "uuid \<Rightarrow> Game \<Rightarrow> Identifier option" where
  "GetEntity id' game = Entities game id'"

definition RemoveEntity :: "uuid \<Rightarrow> Game \<Rightarrow> Game" where
  "RemoveEntity id' game = game\<lparr>Entities := (Entities game)(id' := None)\<rparr>"

text \<open>
  \<open>game.Entities[id].(Mover).Move(position)\<close>: the assertion panics on the nil
  interface of a missing key and on an entity that is no Mover.
\<close>

definition Move :: "uuid \<Rightarrow> Coordinate \<Rightarrow> Game \<Rightarrow> error + Game" where
  "Move id' position game =
     (case Entities game id' of
        None \<Rightarrow> Inl Panic
      | Some entity \<Rightarrow>
          (case MoverMove entity position of
             None \<Rightarrow> Inl Panic
           | Some moved \<Rightarrow> Inr (game\<lparr>Entities := (Entities game)(id' \<mapsto> moved)\<rparr>)))"

text \<open>Every key of the store is the identity that the stored entity reports.\<close>

definition store_inv :: "Game \<Rightarrow> bool" where
  "store_inv game = (\<forall>k e. Entities game k = Some e \<longrightarrow> ID e = k)"

subsection \<open>The throttle table\<close>

definition Millisecond :: int where
  "Millisecond = 1000000"

text \<open>
  \<open>lastAction.After(time.Now().Add(-1*time.Duration(throttle)*time.Millisecond))\<close>,
  with the clock reading \<open>now\<close>.
\<close>

definition CheckLastActionTime :: "string \<Rightarrow> int \<Rightarrow> Time \<Rightarrow> Game \<Rightarrow> bool" where
  "CheckLastActionTime actionKey throttle now game =
     (case LastAction game actionKey of
        None \<Rightarrow> True
      | Some lastAction \<Rightarrow>
          (if lastAction > now + (- 1) * throttle * Millisecond then False else True))"

definition UpdateLastActionTime :: "string \<Rightarrow> Time \<Rightarrow> Game \<Rightarrow> Game" where
  "UpdateLastActionTime actionKey now game =
     game\<lparr>LastAction := (LastAction game)(actionKey \<mapsto> now)\<rparr>"

subsection \<open>MoveAction.Perform\<close>

text \<open>
  \<open>uuid.UUID.String()\<close> of the library github.com/google/uuid: the 32 lower-case
  hexadecimal digits of the 16 bytes, grouped 8-4-4-4-12.
\<close>

definition hexDigit :: "nat \<Rightarrow> char" where
  "hexDigit n = ''0123456789abcdef'' ! (n mod 16)"

fun hexDigits :: "nat \<Rightarrow> nat \<Rightarrow> string" where
  "hexDigits 0 n = []"
| "hexDigits (Suc k) n = hexDigits k (n div 16) @ [hexDigit n]"

definition uuid_String :: "uuid \<Rightarrow> string" where
  "uuid_String u =
     (let h = hexDigits 32 (unat u)
      in take 8 h @ ''-'' @ take 4 (drop 8 h) @ ''-'' @ take 4 (drop 12 h) @ ''-''
         @ take 4 (drop 16 h) @ ''-'' @ drop 20 h)"

text \<open>\<open>fmt.Sprintf("%T:%s", action, entity.ID().String())\<close> for a MoveAction.\<close>

definition actionKey :: "Identifier \<Rightarrow> string" where
  "actionKey entity = ''backend.MoveAction:'' @ uuid_String (ID entity)"

text \<open>The \<open>switch action.Direction\<close>; it has no case for \<open>DirectionStop\<close>.\<close>

fun stepPosition :: "Direction \<Rightarrow> Coordinate \<Rightarrow> Coordinate" where
  "stepPosition DirectionUp position = Coordinate (X position) (Y position - 1)"
| "stepPosition DirectionDown position = Coordinate (X position) (Y position + 1)"
| "stepPosition DirectionLeft position = Coordinate (X position - 1) (Y position)"
| "stepPosition DirectionRight position = Coordinate (X position + 1) (Y position)"
| "stepPosition DirectionStop position = position"

text \<open>
  \<open>now\<close> is the clock read by \<open>CheckLastActionTime\<close>, \<open>now'\<close> the one read afterwards
  by \<open>UpdateLastActionTime\<close>.
\<close>

definition Perform :: "MoveAction \<Rightarrow> Time \<Rightarrow> Time \<Rightarrow> Game \<Rightarrow> error + Game" where
  "Perform action now now' game =
     (case GetEntity (ActionID action) game of
        None \<Rightarrow> Inr game
      | Some entity \<Rightarrow>
          if \<not> CheckLastActionTime (actionKey entity) 50 now game then Inr game
          else
            (case Position entity of
               None \<Rightarrow> Inl Panic
             | Some position \<Rightarrow>
                 (let position = stepPosition (ActionDirection action) position
                  in case Move (ID entity) position game of
                       Inl e \<Rightarrow> Inl e
                     | Inr game \<Rightarrow>
                         Inr (UpdateLastActionTime (actionKey entity) now'
                               (offer (MoveChange entity (ActionDirection action) position)
                                  game)))))"

subsection \<open>The collision loop\<close>

text \<open>
  One pass of \<open>for _, entity := range game.Entities\<close>, for the key \<open>k\<close>: a Positioner is
  appended to the bucket of its position.
\<close>

definition snapshotEntity ::
  "Game \<Rightarrow> uuid \<Rightarrow> (Coordinate \<rightharpoonup> Identifier list) \<Rightarrow> (Coordinate \<rightharpoonup> Identifier list)" where
  "snapshotEntity game k cm =
     (case Entities game k of
        None \<Rightarrow> cm
      | Some entity \<Rightarrow>
          (case Position entity of
             None \<Rightarrow> cm
           | Some position \<Rightarrow>
               cm(position \<mapsto> (case cm position of None \<Rightarrow> [] | Some l \<Rightarrow> l) @ [entity])))"

text \<open>\<open>es\<close> is the order in which the range statement visits the keys of the store.\<close>

definition collisionMap :: "uuid list \<Rightarrow> Game \<Rightarrow> (Coordinate \<rightharpoonup> Identifier list)" where
  "collisionMap es game = fold (snapshotEntity game) es Map.empty"

text \<open>
  The first inner loop: \<open>hasLaser\<close> and \<open>laserOwnerID\<close>, as \<open>Some\<close> of the owner of the
  first Laser of the bucket.
\<close>

fun findLaser :: "Identifier list \<Rightarrow> uuid option" where
  "findLaser [] = None"
| "findLaser (LaserPtr laser # entities) = Some (OwnerID laser)"
| "findLaser (entity # entities) = findLaser entities"

definition scoreOf :: "(uuid \<rightharpoonup> go_int) \<Rightarrow> uuid \<Rightarrow> go_int" where
  "scoreOf s k = (case s k of None \<Rightarrow> 0 | Some n \<Rightarrow> n)"

text \<open>\<open>game.Score[laserOwnerID]++\<close>; a missing key reads as 0.\<close>

definition incrementScore :: "uuid \<Rightarrow> Game \<Rightarrow> Game" where
  "incrementScore k game = game\<lparr>Score := (Score game)(k \<mapsto> scoreOf (Score game) k + 1)\<rparr>"

definition origin :: Coordinate where
  "origin = Coordinate 0 0"

text \<open>The body of the second inner loop: the type switch on one entity of the bucket.\<close>

fun resolveEntity :: "uuid \<Rightarrow> Identifier \<Rightarrow> Game \<Rightarrow> error + Game" where
  "resolveEntity laserOwnerID (LaserPtr laser) game =
     Inr (RemoveEntity (ID (LaserPtr laser)) (offer (RemoveEntityChange (LaserPtr laser)) game))"
| "resolveEntity laserOwnerID (PlayerPtr player) game =
     (case Move (ID (PlayerPtr player)) origin game of
        Inl e \<Rightarrow> Inl e
      | Inr game \<Rightarrow>
          (let game = offer (PlayerRespawnChange player) game
           in if ID (PlayerPtr player) \<noteq> laserOwnerID
              then Inr (incrementScore laserOwnerID game)
              else Inr game))"
| "resolveEntity laserOwnerID (BaseVal b) game = Inr game"

text \<open>A loop whose body may panic: the first panic ends it.\<close>

fun forEach :: "('a \<Rightarrow> Game \<Rightarrow> error + Game) \<Rightarrow> 'a list \<Rightarrow> Game \<Rightarrow> error + Game" where
  "forEach f [] game = Inr game"
| "forEach f (x # xs) game =
     (case f x game of Inl e \<Rightarrow> Inl e | Inr game' \<Rightarrow> forEach f xs game')"

definition resolveBucket :: "Identifier list \<Rightarrow> Game \<Rightarrow> error + Game" where
  "resolveBucket entities game =
     (if length entities \<le> 1 then Inr game
      else
        (case findLaser entities of
           None \<Rightarrow> Inr game
         | Some laserOwnerID \<Rightarrow> forEach (resolveEntity laserOwnerID) entities game))"

text \<open>
  One iteration of the collision loop, before its \<open>time.Sleep\<close>. \<open>es\<close> is the order in
  which the store is ranged over, \<open>cs\<close> the order in which the collision map is.
\<close>

definition tick :: "uuid list \<Rightarrow> Coordinate list \<Rightarrow> Game \<Rightarrow> error + Game" where
  "tick es cs game =
     (let cm = collisionMap es game
      in forEach (\<lambda>c g. case cm c of None \<Rightarrow> Inr g | Some entities \<Rightarrow> resolveBucket entities g)
           cs game)"

text \<open>A list is an iteration order of a map when it visits every key once.\<close>

definition iteration_order :: "'k list \<Rightarrow> ('k \<rightharpoonup> 'v) \<Rightarrow> bool" where
  "iteration_order ks m = (distinct ks \<and> set ks = dom m)"

subsection \<open>Game.Start and the running system\<close>

datatype task = ActionLoop | CollisionLoop

text \<open>The goroutines that \<open>Start\<close> launches: it returns before the second \<open>go\<close> statement
  when the game is not authoritative.\<close>

definition Start :: "Game \<Rightarrow> task list" where
  "Start game = (if \<not> IsAuthoritative game then [ActionLoop] else [ActionLoop, CollisionLoop])"

text \<open>
  One step of a started game with the tasks \<open>ts\<close>: a producer puts an action into the
  action channel; the action loop takes one out and performs it; the collision loop
  runs one iteration; a consumer takes a Change out of the change channel; code outside
  the backend calls a store operation. A step that panics ends the process and is no
  step.
\<close>

inductive step :: "task list \<Rightarrow> Game \<Rightarrow> Game \<Rightarrow> bool" for ts :: "task list" where
  submit:
    "length (ActionChannel g) < channel_capacity \<Longrightarrow>
     step ts g (g\<lparr>ActionChannel := ActionChannel g @ [a]\<rparr>)"
| perform:
    "ActionLoop \<in> set ts \<Longrightarrow> ActionChannel g = a # rest \<Longrightarrow> now \<le> now' \<Longrightarrow>
     Perform a now now' (g\<lparr>ActionChannel := rest\<rparr>) = Inr g' \<Longrightarrow> step ts g g'"
| collide:
    "CollisionLoop \<in> set ts \<Longrightarrow> iteration_order es (Entities g) \<Longrightarrow>
     iteration_order cs (collisionMap es g) \<Longrightarrow> tick es cs g = Inr g' \<Longrightarrow> step ts g g'"
| receive:
    "ChangeChannel g = c # rest \<Longrightarrow> step ts g (g\<lparr>ChangeChannel := rest\<rparr>)"
| add: "step ts g (AddEntity e g)"
| update: "step ts g (UpdateEntity e g)"
| remove: "step ts g (RemoveEntity k g)"
| move: "Move k position g = Inr g' \<Longrightarrow> step ts g g'"

text \<open>The Changes that only the collision loop produces.\<close>

fun collision_derived :: "Change \<Rightarrow> bool" where
  "collision_derived (RemoveEntityChange e) = True"
| "collision_derived (PlayerRespawnChange p) = True"
| "collision_derived c = False"

subsection \<open>Notions used to state what a tick does\<close>

text \<open>
  The bucket of a cell as the snapshot loop builds it; the entities of a bucket that the
  second inner loop visits, each with the credited owner; all of them for one tick, in
  the order of the visits; whether a visit increments the score; the Changes it offers.
\<close>

definition bucket :: "uuid list \<Rightarrow> Game \<Rightarrow> Coordinate \<Rightarrow> Identifier list" where
  "bucket es g c = filter (\<lambda>e. Position e = Some c) (List.map_filter (Entities g) es)"

definition hits :: "Identifier list \<Rightarrow> (uuid \<times> Identifier) list" where
  "hits b =
     (if length b \<le> 1 then []
      else (case findLaser b of None \<Rightarrow> [] | Some laserOwnerID \<Rightarrow> map (Pair laserOwnerID) b))"

definition tick_work :: "uuid list \<Rightarrow> Coordinate list \<Rightarrow> Game \<Rightarrow> (uuid \<times> Identifier) list" where
  "tick_work es cs g = concat (map (\<lambda>c. hits (bucket es g c)) cs)"

fun scoring :: "uuid \<times> Identifier \<Rightarrow> bool" where
  "scoring (laserOwnerID, PlayerPtr player) = (ID (PlayerPtr player) \<noteq> laserOwnerID)"
| "scoring (laserOwnerID, entity) = False"

fun offers :: "uuid \<times> Identifier \<Rightarrow> Change list" where
  "offers (laserOwnerID, LaserPtr laser) = [RemoveEntityChange (LaserPtr laser)]"
| "offers (laserOwnerID, PlayerPtr player) = [PlayerRespawnChange player]"
| "offers (laserOwnerID, BaseVal b) = []"

definition bump :: "uuid \<Rightarrow> (uuid \<rightharpoonup> go_int) \<Rightarrow> (uuid \<rightharpoonup> go_int)" where
  "bump k s = s(k \<mapsto> scoreOf s k + 1)"

abbreviation resolve :: "uuid \<times> Identifier \<Rightarrow> Game \<Rightarrow> error + Game" where
  "resolve \<equiv> \<lambda>w. resolveEntity (fst w) (snd w)"

text \<open>
  The rule of the spec for crediting a hit, stated without the loop: a Laser is the first
  Laser of a bucket when no Laser stands before it; a stored Player counts for an owner
  when the first Laser of the bucket of the Player's cell belongs to that owner and the
  Player is not the owner.
\<close>

definition first_laser :: "Identifier list \<Rightarrow> Laser \<Rightarrow> bool" where
  "first_laser b laser =
     (\<exists>before after. b = before @ LaserPtr laser # after \<and> (\<forall>l. LaserPtr l \<notin> set before))"

definition scores_for :: "uuid list \<Rightarrow> Game \<Rightarrow> uuid \<Rightarrow> uuid set" where
  "scores_for es g owner =
     {q. \<exists>player b laser.
           Entities g q = Some (PlayerPtr player)
           \<and> collisionMap es g (CurrentPosition player) = Some b
           \<and> first_laser b laser \<and> OwnerID laser = owner \<and> q \<noteq> owner}"

subsection \<open>Example states\<close>

text \<open>A player with identity 1 and a laser with identity 10, owned by player 2, on one cell.\<close>

definition ex_player :: Player where
  "ex_player = Player (IdentifierBase 1) (Coordinate 3 4) 0"

definition ex_laser :: Laser where
  "ex_laser = Laser (IdentifierBase 10) 2 (Coordinate 3 4) DirectionRight"

definition ex_game :: Game where
  "ex_game = AddEntity (LaserPtr ex_laser) (AddEntity (PlayerPtr ex_player) NewGame)"

text \<open>A store holding one bare \<open>IdentifierBase\<close>.\<close>

definition ex_bare_game :: Game where
  "ex_bare_game = AddEntity (BaseVal (IdentifierBase 7)) NewGame"

text \<open>The example game after an accepted \<open>DirectionStop\<close> action at time 0, and after a
  later accepted \<open>DirectionUp\<close> action at 51 ms.\<close>

definition ex_throttle_game :: Game where
  "ex_throttle_game =
     ex_game\<lparr>Entities := (Entities ex_game)(1 \<mapsto> PlayerPtr ex_player),
             ChangeChannel := [MoveChange (PlayerPtr ex_player) DirectionStop (Coordinate 3 4)],
             LastAction := [actionKey (PlayerPtr ex_player) \<mapsto> 0],
             Offered := [MoveChange (PlayerPtr ex_player) DirectionStop (Coordinate 3 4)]\<rparr>"

definition ex_throttle_moved :: Game where
  "ex_throttle_moved =
     ex_throttle_game\<lparr>Entities :=
         (Entities ex_throttle_game)(1 \<mapsto> PlayerPtr (Player (IdentifierBase 1) (Coordinate 3 3) 0)),
       LastAction := [actionKey (PlayerPtr ex_player) \<mapsto> 51000000],
       Offered := Offered ex_throttle_game @ [MoveChange (PlayerPtr ex_player) DirectionUp (Coordinate 3 3)]\<rparr>"

text \<open>The example game after one collision tick that visits the player first.\<close>

definition ex_game_after_tick :: Game where
  "ex_game_after_tick =
     ex_game\<lparr>Entities := [1 \<mapsto> PlayerPtr (Player (IdentifierBase 1) origin 0)],
             ChangeChannel := [PlayerRespawnChange ex_player],
             Score := [2 \<mapsto> 1],
             Offered := [PlayerRespawnChange ex_player, RemoveEntityChange (LaserPtr ex_laser)]\<rparr>"

text \<open>The example game on a client, and after one accepted \<open>DirectionUp\<close> action there.\<close>

definition ex_client_game :: Game where
  "ex_client_game = ex_game\<lparr>IsAuthoritative := False\<rparr>"

definition ex_client_game_moved :: Game where
  "ex_client_game_moved =
     ex_client_game\<lparr>Entities :=
         (Entities ex_client_game)(1 \<mapsto> PlayerPtr (Player (IdentifierBase 1) (Coordinate 3 3) 0)),
       ChangeChannel := [MoveChange (PlayerPtr ex_player) DirectionUp (Coordinate 3 3)],
       LastAction := [actionKey (PlayerPtr ex_player) \<mapsto> 5],
       Offered := [MoveChange (PlayerPtr ex_player) DirectionUp (Coordinate 3 3)]\<rparr>"

text \<open>Further players and lasers on the cell of the example game.\<close>

definition ex_other_player :: Player where
  "ex_other_player = Player (IdentifierBase 3) (Coordinate 3 4) 0"

definition ex_crowded_game :: Game where
  "ex_crowded_game = AddEntity (PlayerPtr ex_other_player) ex_game"


definition ex_own_laser :: Laser where
  "ex_own_laser = Laser (IdentifierBase 10) 1 (Coordinate 3 4) DirectionRight"

definition ex_self_game :: Game where
  "ex_self_game = AddEntity (LaserPtr ex_own_laser) (AddEntity (PlayerPtr ex_player) NewGame)"

definition ex_self_after_tick :: Game where
  "ex_self_after_tick =
     ex_self_game\<lparr>Entities := [1 \<mapsto> PlayerPtr (Player (IdentifierBase 1) origin 0)],
             ChangeChannel := [PlayerRespawnChange ex_player],
             Offered := [PlayerRespawnChange ex_player, RemoveEntityChange (LaserPtr ex_own_laser)]\<rparr>"

definition ex_self_crowded_game :: Game where
  "ex_self_crowded_game = AddEntity (PlayerPtr ex_other_player) ex_self_game"

definition ex_self_crowded_after_tick :: Game where
  "ex_self_crowded_after_tick =
     ex_self_crowded_game\<lparr>Entities := [1 \<mapsto> PlayerPtr (Player (IdentifierBase 1) origin 0),
                                   3 \<mapsto> PlayerPtr (Player (IdentifierBase 3) origin 0)],
             ChangeChannel := [PlayerRespawnChange ex_player],
             Score := [1 \<mapsto> 1],
             Offered := [PlayerRespawnChange ex_player, PlayerRespawnChange ex_other_player,
                         RemoveEntityChange (LaserPtr ex_own_laser)]\<rparr>"

section \<open>Properties of the change channel and the store\<close>

lemma MoverMove_ID: "MoverMove e c = Some e' \<Longrightarrow> ID e' = ID e"
  by (cases e) auto

lemma MoverMove_Position: "MoverMove e c = Some e' \<Longrightarrow> Position e' = Some c"
  by (cases e) auto

text \<open>
  C10. AddEntity and UpdateEntity are the same function: each stores the entity under
  its own identity, replaces whatever was there, inserts when the key was missing, and
  leaves every other key and every other field as it was.
\<close>

theorem AddEntity_UpdateEntity_equal:
  "AddEntity = UpdateEntity
   \<and> Entities (UpdateEntity e g) = (Entities g)(ID e \<mapsto> e)
   \<and> Entities (AddEntity e g) = (Entities g)(ID e \<mapsto> e)
   \<and> UpdateEntity e (g\<lparr>Entities := (Entities g)(ID e := None)\<rparr>) = AddEntity e g
   \<and> AddEntity e g = g\<lparr>Entities := Entities (AddEntity e g)\<rparr>"
  by (simp add: fun_eq_iff AddEntity_def UpdateEntity_def)

lemma isMover_iff: "isMover e \<longleftrightarrow> MoverMove e c \<noteq> None"
  by (cases e) (auto simp: isMover_def)

lemma isMover_Player: "isMover e \<longleftrightarrow> (\<exists>p. e = PlayerPtr p)"
  by (cases e) (auto simp: isMover_def)

text \<open>
  C5. A send to the change channel while it holds an undelivered Change returns at once
  and changes nothing: the held Change stays, the new one is neither stored nor queued.
  Of two Changes offered one after the other with no receive in between, the second
  never alters the channel, and from an empty channel exactly the first is in it.
\<close>

theorem full_channel_drops_new_change:
  "(channel_capacity \<le> length ch \<longrightarrow> trySend c ch = ch)
   \<and> (ChangeChannel g = [held] \<longrightarrow> ChangeChannel (offer c g) = [held])
   \<and> ChangeChannel (offer c2 (offer c1 g)) = ChangeChannel (offer c1 g)
   \<and> (ChangeChannel g = [] \<longrightarrow> ChangeChannel (offer c2 (offer c1 g)) = [c1])"
  by (simp add: trySend_def offer_def channel_capacity_def)

theorem full_channel_drops_new_change_witness:
  "channel_capacity \<le> length [AddEntityChange (BaseVal (IdentifierBase 1))]
   \<and> trySend (AddEntityChange (BaseVal (IdentifierBase 2))) [AddEntityChange (BaseVal (IdentifierBase 1))]
       = [AddEntityChange (BaseVal (IdentifierBase 1))]
   \<and> ChangeChannel (offer (AddEntityChange (BaseVal (IdentifierBase 1))) NewGame)
       = [AddEntityChange (BaseVal (IdentifierBase 1))]
   \<and> ChangeChannel (offer (AddEntityChange (BaseVal (IdentifierBase 2)))
        (offer (AddEntityChange (BaseVal (IdentifierBase 1))) NewGame))
       = [AddEntityChange (BaseVal (IdentifierBase 1))]
   \<and> ChangeChannel NewGame = []"
  using full_channel_drops_new_change
    [of "[AddEntityChange (BaseVal (IdentifierBase 1))]"
        "AddEntityChange (BaseVal (IdentifierBase 2))"
        "offer (AddEntityChange (BaseVal (IdentifierBase 1))) NewGame"
        "AddEntityChange (BaseVal (IdentifierBase 1))"
        "AddEntityChange (BaseVal (IdentifierBase 2))"
        "AddEntityChange (BaseVal (IdentifierBase 2))"]
    full_channel_drops_new_change
    [of "[]" "AddEntityChange (BaseVal (IdentifierBase 2))" NewGame undefined
        "AddEntityChange (BaseVal (IdentifierBase 2))"
        "AddEntityChange (BaseVal (IdentifierBase 1))"]
  by (simp add: channel_capacity_def NewGame_def offer_def trySend_def)

lemma ex_game_Entities:
  "Entities ex_game = [1 \<mapsto> PlayerPtr ex_player, 10 \<mapsto> LaserPtr ex_laser]"
  by (simp add: ex_game_def AddEntity_def NewGame_def ex_player_def ex_laser_def)

text \<open>
  C7. When the key is in the store and the stored entity is a Mover, \<open>Move\<close> returns
  normally and the entity under that key then reports the new position, with its
  identity unchanged and no other field of the game touched. On a missing key and on an
  entity that is no Mover, \<open>Move\<close> panics; it panics in no other case, so under the
  precondition the panic is unreachable.
\<close>

theorem Move_precondition:
  "(Entities g k = Some e \<and> isMover e \<longrightarrow>
      (\<exists>e'. MoverMove e position = Some e' \<and> Position e' = Some position \<and> ID e' = ID e
         \<and> Move k position g = Inr (g\<lparr>Entities := (Entities g)(k \<mapsto> e')\<rparr>)))
   \<and> (Entities g k = None \<longrightarrow> Move k position g = Inl Panic)
   \<and> (Entities g k = Some e \<and> \<not> isMover e \<longrightarrow> Move k position g = Inl Panic)
   \<and> (Move k position g = Inl Panic \<longleftrightarrow> \<not> (\<exists>e. Entities g k = Some e \<and> isMover e))"
  by (cases e; cases "Entities g k")
     (auto simp: Move_def isMover_iff[of _ position] isMover_Player split: option.splits)

theorem Move_precondition_witness:
  "Entities ex_game 1 = Some (PlayerPtr ex_player) \<and> isMover (PlayerPtr ex_player)
   \<and> Move 1 origin ex_game
       = Inr (ex_game\<lparr>Entities := (Entities ex_game)(1 \<mapsto> PlayerPtr (Player (IdentifierBase 1) origin 0))\<rparr>)
   \<and> Entities ex_game 7 = None \<and> Move 7 origin ex_game = Inl Panic
   \<and> Entities ex_bare_game 7 = Some (BaseVal (IdentifierBase 7))
   \<and> \<not> isMover (BaseVal (IdentifierBase 7))
   \<and> Move 7 origin ex_bare_game = Inl Panic"
  using Move_precondition [of ex_game 1 "PlayerPtr ex_player" origin]
    Move_precondition [of ex_game 7 "PlayerPtr ex_player" origin]
    Move_precondition [of ex_bare_game 7 "BaseVal (IdentifierBase 7)" origin]
  by (simp add: ex_game_Entities isMover_def ex_player_def ex_bare_game_def AddEntity_def)

text \<open>
  C8. After \<open>AddEntity e\<close>, \<open>GetEntity\<close> at the identity of \<open>e\<close> returns \<open>e\<close>. The new
  game satisfies the store invariant (every key is the identity reported by the entity
  stored under it), and \<open>AddEntity\<close>, \<open>UpdateEntity\<close>, \<open>RemoveEntity\<close> and a \<open>Move\<close> that
  returns preserve it.
\<close>

theorem store_inv_preserved:
  "GetEntity (ID e) (AddEntity e g) = Some e
   \<and> store_inv NewGame
   \<and> (store_inv g \<longrightarrow>
        store_inv (AddEntity e g) \<and> store_inv (UpdateEntity e g) \<and> store_inv (RemoveEntity k g))
   \<and> (store_inv g \<and> Move k position g = Inr g' \<longrightarrow> store_inv g')"
  by (auto simp: GetEntity_def AddEntity_def UpdateEntity_def RemoveEntity_def NewGame_def
        store_inv_def Move_def dest: MoverMove_ID split: option.splits if_splits)

theorem store_inv_preserved_witness:
  "store_inv ex_game
   \<and> store_inv (AddEntity (BaseVal (IdentifierBase 7)) ex_game)
   \<and> store_inv (UpdateEntity (BaseVal (IdentifierBase 7)) ex_game)
   \<and> store_inv (RemoveEntity 10 ex_game)
   \<and> Move 1 origin ex_game
       = Inr (ex_game\<lparr>Entities := (Entities ex_game)(1 \<mapsto> PlayerPtr (Player (IdentifierBase 1) origin 0))\<rparr>)
   \<and> store_inv (ex_game\<lparr>Entities := (Entities ex_game)(1 \<mapsto> PlayerPtr (Player (IdentifierBase 1) origin 0))\<rparr>)"
proof -
  have inv: "store_inv ex_game"
    by (simp add: store_inv_def ex_game_Entities ex_player_def ex_laser_def)
  have mv: "Move 1 origin ex_game
       = Inr (ex_game\<lparr>Entities := (Entities ex_game)(1 \<mapsto> PlayerPtr (Player (IdentifierBase 1) origin 0))\<rparr>)"
    by (simp add: Move_def ex_game_Entities ex_player_def)
  show ?thesis
    using inv mv
      store_inv_preserved [of "BaseVal (IdentifierBase 7)" ex_game 10]
      store_inv_preserved [of "BaseVal (IdentifierBase 7)" ex_game 1 origin
        "ex_game\<lparr>Entities := (Entities ex_game)(1 \<mapsto> PlayerPtr (Player (IdentifierBase 1) origin 0))\<rparr>"]
    by simp
qed

section \<open>MoveAction.Perform\<close>

lemma ex_game_fields:
  "ChangeChannel ex_game = []" "LastAction ex_game = Map.empty" "Offered ex_game = []"
  "Score ex_game = Map.empty" "IsAuthoritative ex_game" "ActionChannel ex_game = []"
  by (simp_all add: ex_game_def AddEntity_def NewGame_def)

lemma ex_game_inv: "store_inv ex_game"
  by (simp add: store_inv_def ex_game_Entities ex_player_def ex_laser_def)

lemma Move_Inr_iff:
  "Move k c g = Inr g' \<longleftrightarrow>
     (\<exists>e e'. Entities g k = Some e \<and> MoverMove e c = Some e'
        \<and> g' = g\<lparr>Entities := (Entities g)(k \<mapsto> e')\<rparr>)"
  by (auto simp: Move_def split: option.splits)

lemma actionKey_cong: "ID e' = ID e \<Longrightarrow> actionKey e' = actionKey e"
  by (simp add: actionKey_def)

text \<open>
  C2, as stated, fails: an entity that is present need not be a Positioner. With a bare
  \<open>IdentifierBase\<close> in the store and an empty throttle table, \<open>Perform\<close> panics at the
  type assertion \<open>entity.(Positioner)\<close> instead of moving anything.
\<close>

theorem Perform_on_bare_identifier_panics:
  "GetEntity 7 ex_bare_game = Some (BaseVal (IdentifierBase 7))
   \<and> LastAction ex_bare_game (actionKey (BaseVal (IdentifierBase 7))) = None
   \<and> Perform (MoveAction DirectionUp 7) 0 0 ex_bare_game = Inl Panic"
  by (simp add: ex_bare_game_def AddEntity_def NewGame_def GetEntity_def Perform_def
        CheckLastActionTime_def)

text \<open>
  C2, amended. In a game that satisfies the store invariant, for a MoveAction whose
  target is present, is a Positioner and a Mover, and whose throttle key has no
  timestamp later than 50 ms before the clock reading: \<open>Perform\<close> returns; the entity
  under the key is the old one moved to the position one cell away in the requested
  direction (Up: Y - 1, Down: Y + 1, Left: X - 1, Right: X + 1, Stop: the same cell,
  in 64-bit arithmetic); a MoveChange with the entity, the direction and the new
  position is offered to the change channel; the throttle key is stamped with the
  second clock reading; nothing else changes.
\<close>

theorem Perform_moves_one_cell:
  assumes "store_inv g" and "GetEntity (ActionID a) g = Some e"
    and "Position e = Some p" and "isMover e"
    and "\<forall>t. LastAction g (actionKey e) = Some t \<longrightarrow> t + 50 * Millisecond \<le> now"
  shows "\<exists>e'. MoverMove e (stepPosition (ActionDirection a) p) = Some e'
     \<and> Position e' = Some (stepPosition (ActionDirection a) p)
     \<and> Perform a now now' g =
         Inr (g\<lparr>Entities := (Entities g)(ActionID a \<mapsto> e'),
                ChangeChannel :=
                  trySend (MoveChange e (ActionDirection a) (stepPosition (ActionDirection a) p))
                    (ChangeChannel g),
                LastAction := (LastAction g)(actionKey e \<mapsto> now'),
                Offered :=
                  Offered g @ [MoveChange e (ActionDirection a) (stepPosition (ActionDirection a) p)]\<rparr>)
     \<and> stepPosition DirectionUp p = Coordinate (X p) (Y p - 1)
     \<and> stepPosition DirectionDown p = Coordinate (X p) (Y p + 1)
     \<and> stepPosition DirectionLeft p = Coordinate (X p - 1) (Y p)
     \<and> stepPosition DirectionRight p = Coordinate (X p + 1) (Y p)
     \<and> stepPosition DirectionStop p = p"
proof -
  from assms(4) obtain e' where mv: "MoverMove e (stepPosition (ActionDirection a) p) = Some e'"
    using isMover_iff by blast
  from assms(1,2) have id: "ID e = ActionID a"
    by (simp add: store_inv_def GetEntity_def)
  have chk: "CheckLastActionTime (actionKey e) 50 now g"
    using assms(5) by (auto simp: CheckLastActionTime_def split: option.splits)
  have "Perform a now now' g =
         Inr (g\<lparr>Entities := (Entities g)(ActionID a \<mapsto> e'),
                ChangeChannel :=
                  trySend (MoveChange e (ActionDirection a) (stepPosition (ActionDirection a) p))
                    (ChangeChannel g),
                LastAction := (LastAction g)(actionKey e \<mapsto> now'),
                Offered :=
                  Offered g @ [MoveChange e (ActionDirection a) (stepPosition (ActionDirection a) p)]\<rparr>)"
    using assms(2,3) mv id chk
    by (simp add: Perform_def Move_def GetEntity_def offer_def UpdateLastActionTime_def Let_def)
  with mv MoverMove_Position[OF mv] show ?thesis by simp
qed

theorem Perform_moves_one_cell_witness:
  "store_inv ex_game \<and> GetEntity 1 ex_game = Some (PlayerPtr ex_player)
   \<and> Position (PlayerPtr ex_player) = Some (Coordinate 3 4) \<and> isMover (PlayerPtr ex_player)
   \<and> LastAction ex_game (actionKey (PlayerPtr ex_player)) = None
   \<and> Perform (MoveAction DirectionUp 1) 0 0 ex_game =
       Inr (ex_game\<lparr>Entities :=
                (Entities ex_game)(1 \<mapsto> PlayerPtr (Player (IdentifierBase 1) (Coordinate 3 3) 0)),
              ChangeChannel := [MoveChange (PlayerPtr ex_player) DirectionUp (Coordinate 3 3)],
              LastAction := [actionKey (PlayerPtr ex_player) \<mapsto> 0],
              Offered := [MoveChange (PlayerPtr ex_player) DirectionUp (Coordinate 3 3)]\<rparr>)"
proof -
  have h: "store_inv ex_game" "GetEntity (ActionID (MoveAction DirectionUp 1)) ex_game = Some (PlayerPtr ex_player)"
    "Position (PlayerPtr ex_player) = Some (Coordinate 3 4)" "isMover (PlayerPtr ex_player)"
    "\<forall>t. LastAction ex_game (actionKey (PlayerPtr ex_player)) = Some t \<longrightarrow> t + 50 * Millisecond \<le> 0"
    by (simp_all add: ex_game_inv GetEntity_def ex_game_Entities ex_game_fields isMover_def)
       (simp add: ex_player_def)
  show ?thesis
    using h Perform_moves_one_cell [OF h, of 0]
    by (simp add: ex_game_fields trySend_def channel_capacity_def ex_player_def)
qed

text \<open>
  C3, as stated, fails in its last part: two MoveActions for one entity less than 50 ms
  apart, of which the first was itself throttled. After an accepted action at time 0,
  the action at 49 ms is dropped, and the action at 51 ms, 2 ms after it, is accepted and
  moves the player.
\<close>

theorem later_action_after_throttled_one_is_accepted:
  "Perform (MoveAction DirectionStop 1) 0 0 ex_game = Inr ex_throttle_game
   \<and> Perform (MoveAction DirectionUp 1) 49000000 49000000 ex_throttle_game = Inr ex_throttle_game
   \<and> Perform (MoveAction DirectionUp 1) 51000000 51000000 ex_throttle_game = Inr ex_throttle_moved
   \<and> Entities ex_throttle_game 1 = Some (PlayerPtr (Player (IdentifierBase 1) (Coordinate 3 4) 0))
   \<and> Entities ex_throttle_moved 1 = Some (PlayerPtr (Player (IdentifierBase 1) (Coordinate 3 3) 0))
   \<and> (51000000 :: int) - 49000000 < 50 * Millisecond"
  by (simp add: Perform_def GetEntity_def ex_throttle_game_def ex_throttle_moved_def
        ex_game_Entities ex_game_fields CheckLastActionTime_def Millisecond_def Move_def
        offer_def UpdateLastActionTime_def trySend_def channel_capacity_def ex_player_def Let_def)

text \<open>
  C3, amended. A MoveAction whose entity is absent from the store, or whose throttle key
  carries a timestamp less than 50 ms before the clock reading, leaves the whole game as
  it was: store, positions, change channel, offered Changes and throttle table. Of two
  MoveActions for one entity of which the first is accepted and returns, the second,
  checked less than 50 ms after the first was checked, leaves the game as the first
  left it.
\<close>

theorem Perform_throttled_or_unknown_is_noop:
  "(GetEntity (ActionID a) g = None \<longrightarrow> Perform a now now' g = Inr g)
   \<and> (GetEntity (ActionID a) g = Some e \<and> LastAction g (actionKey e) = Some t
        \<and> now < t + 50 * Millisecond \<longrightarrow> Perform a now now' g = Inr g)
   \<and> (store_inv g \<and> GetEntity (ActionID a) g = Some e
        \<and> CheckLastActionTime (actionKey e) 50 now g \<and> Perform a now now' g = Inr g1
        \<and> ActionID a2 = ActionID a \<and> now \<le> now' \<and> now2 < now + 50 * Millisecond \<longrightarrow>
          Perform a2 now2 now2' g1 = Inr g1)"
proof (intro conjI impI)
  show "GetEntity (ActionID a) g = None \<Longrightarrow> Perform a now now' g = Inr g"
    by (simp add: Perform_def)
  show "GetEntity (ActionID a) g = Some e \<and> LastAction g (actionKey e) = Some t
        \<and> now < t + 50 * Millisecond \<Longrightarrow> Perform a now now' g = Inr g"
    by (simp add: Perform_def CheckLastActionTime_def)
  assume h: "store_inv g \<and> GetEntity (ActionID a) g = Some e
        \<and> CheckLastActionTime (actionKey e) 50 now g \<and> Perform a now now' g = Inr g1
        \<and> ActionID a2 = ActionID a \<and> now \<le> now' \<and> now2 < now + 50 * Millisecond"
  then have id: "ID e = ActionID a"
    by (simp add: store_inv_def GetEntity_def)
  from h obtain p gm where p: "Position e = Some p"
    and gm: "Move (ID e) (stepPosition (ActionDirection a) p) g = Inr gm"
    and g1: "g1 = UpdateLastActionTime (actionKey e) now'
               (offer (MoveChange e (ActionDirection a) (stepPosition (ActionDirection a) p)) gm)"
    by (auto simp: Perform_def Let_def split: option.splits sum.splits)
  from gm obtain e' where e': "MoverMove e (stepPosition (ActionDirection a) p) = Some e'"
    and gm': "gm = g\<lparr>Entities := (Entities g)(ID e \<mapsto> e')\<rparr>"
    using h id by (auto simp: Move_Inr_iff GetEntity_def)
  have key: "actionKey e' = actionKey e"
    using MoverMove_ID[OF e'] by (rule actionKey_cong)
  have "GetEntity (ActionID a2) g1 = Some e'"
    using h id by (simp add: g1 gm' GetEntity_def UpdateLastActionTime_def offer_def)
  moreover have "\<not> CheckLastActionTime (actionKey e') 50 now2 g1"
    using h by (simp add: key g1 CheckLastActionTime_def UpdateLastActionTime_def Millisecond_def)
  ultimately show "Perform a2 now2 now2' g1 = Inr g1"
    by (simp add: Perform_def)
qed

theorem Perform_throttled_or_unknown_is_noop_witness:
  "GetEntity 7 ex_game = None \<and> Perform (MoveAction DirectionUp 7) 0 0 ex_game = Inr ex_game
   \<and> LastAction ex_throttle_game (actionKey (PlayerPtr ex_player)) = Some 0
   \<and> Perform (MoveAction DirectionUp 1) 49000000 49000000 ex_throttle_game = Inr ex_throttle_game
   \<and> Perform (MoveAction DirectionStop 1) 0 0 ex_game = Inr ex_throttle_game"
proof -
  have first: "Perform (MoveAction DirectionStop 1) 0 0 ex_game = Inr ex_throttle_game"
    by (simp add: Perform_def GetEntity_def ex_throttle_game_def
        ex_game_Entities ex_game_fields CheckLastActionTime_def Move_def
        offer_def UpdateLastActionTime_def trySend_def channel_capacity_def ex_player_def Let_def)
  have a: "GetEntity (ActionID (MoveAction DirectionUp 7)) ex_game = None"
    by (simp add: GetEntity_def ex_game_Entities)
  have b: "GetEntity (ActionID (MoveAction DirectionUp 1)) ex_throttle_game = Some (PlayerPtr ex_player)
     \<and> LastAction ex_throttle_game (actionKey (PlayerPtr ex_player)) = Some 0
     \<and> (49000000::int) < 0 + 50 * Millisecond"
    by (simp add: GetEntity_def ex_throttle_game_def Millisecond_def)
  have c: "store_inv ex_game \<and> GetEntity (ActionID (MoveAction DirectionStop 1)) ex_game = Some (PlayerPtr ex_player)
     \<and> CheckLastActionTime (actionKey (PlayerPtr ex_player)) 50 0 ex_game
     \<and> Perform (MoveAction DirectionStop 1) 0 0 ex_game = Inr ex_throttle_game
     \<and> ActionID (MoveAction DirectionUp 1) = ActionID (MoveAction DirectionStop 1)
     \<and> (0::int) \<le> 0 \<and> (49000000::int) < 0 + 50 * Millisecond"
    using first
    by (simp add: ex_game_inv GetEntity_def ex_game_Entities CheckLastActionTime_def
          ex_game_fields Millisecond_def)
  show ?thesis
    using a b c first
      Perform_throttled_or_unknown_is_noop
        [of "MoveAction DirectionUp 7" ex_game 0 0 "PlayerPtr ex_player" 0 ex_throttle_game
            "MoveAction DirectionUp 1" 49000000 49000000]
      Perform_throttled_or_unknown_is_noop
        [of "MoveAction DirectionUp 1" ex_throttle_game 49000000 49000000 "PlayerPtr ex_player" 0
            ex_throttle_game "MoveAction DirectionUp 1" 49000000 49000000]
      Perform_throttled_or_unknown_is_noop
        [of "MoveAction DirectionStop 1" ex_game 0 0 "PlayerPtr ex_player" 0 ex_throttle_game
            "MoveAction DirectionUp 1" 49000000 49000000]
    by (simp add: GetEntity_def)
qed

section \<open>The authoritative flag and the running system\<close>

lemma forEach_preserves:
  assumes "\<And>x g g'. f x g = Inr g' \<Longrightarrow> q g' = q g"
  shows "forEach f xs g = Inr g' \<Longrightarrow> q g' = q g"
proof (induction xs arbitrary: g)
  case Nil
  then show ?case by simp
next
  case (Cons x xs)
  then obtain g1 where "f x g = Inr g1" "forEach f xs g1 = Inr g'"
    by (auto split: sum.splits)
  with Cons.IH assms show ?case by metis
qed

lemma resolveEntity_frame:
  "resolveEntity owner e g = Inr g' \<Longrightarrow>
     IsAuthoritative g' = IsAuthoritative g \<and> LastAction g' = LastAction g
     \<and> ActionChannel g' = ActionChannel g"
  by (cases e)
     (auto simp: Move_Inr_iff offer_def RemoveEntity_def incrementScore_def Let_def
        split: sum.splits if_splits)

lemma resolveBucket_IsAuthoritative:
  "resolveBucket b g = Inr g' \<Longrightarrow> IsAuthoritative g' = IsAuthoritative g"
  unfolding resolveBucket_def
  by (auto split: if_splits option.splits
        dest!: forEach_preserves[where q = IsAuthoritative, rotated] simp: resolveEntity_frame)

lemma tick_IsAuthoritative:
  "tick es cs g = Inr g' \<Longrightarrow> IsAuthoritative g' = IsAuthoritative g"
  unfolding tick_def Let_def
  by (erule forEach_preserves[rotated])
     (auto split: option.splits dest: resolveBucket_IsAuthoritative)

lemma Perform_frame:
  "Perform a now now' g = Inr g' \<Longrightarrow>
     IsAuthoritative g' = IsAuthoritative g \<and> Score g' = Score g
     \<and> filter collision_derived (Offered g') = filter collision_derived (Offered g)"
  by (auto simp: Perform_def Let_def Move_Inr_iff offer_def UpdateLastActionTime_def
        split: option.splits if_splits sum.splits)

lemma step_IsAuthoritative: "step ts g g' \<Longrightarrow> IsAuthoritative g' = IsAuthoritative g"
  by (induction rule: step.induct)
     (auto simp: AddEntity_def UpdateEntity_def RemoveEntity_def Move_Inr_iff
        dest: Perform_frame tick_IsAuthoritative)

lemma step_without_collision_loop:
  "step ts g g' \<Longrightarrow> CollisionLoop \<notin> set ts \<Longrightarrow>
     Score g' = Score g
     \<and> filter collision_derived (Offered g') = filter collision_derived (Offered g)"
  by (induction rule: step.induct)
     (auto simp: AddEntity_def UpdateEntity_def RemoveEntity_def Move_Inr_iff
        dest: Perform_frame)

lemma ex_tick: "tick [1, 10] [Coordinate 3 4] ex_game = Inr ex_game_after_tick"
  by (simp add: tick_def collisionMap_def snapshotEntity_def ex_game_Entities ex_player_def
        ex_laser_def resolveBucket_def Move_def offer_def RemoveEntity_def incrementScore_def
        trySend_def channel_capacity_def scoreOf_def ex_game_fields ex_game_after_tick_def
        origin_def Let_def)


lemma ex_orders:
  "iteration_order [1, 10] (Entities ex_game)"
  "iteration_order [Coordinate 3 4] (collisionMap [1, 10] ex_game)"
  by (auto simp: iteration_order_def ex_game_Entities collisionMap_def snapshotEntity_def
        ex_player_def ex_laser_def split: if_splits)

text \<open>
  C9, as stated, fails: a caller changes the flag after construction. \<open>NewGame\<close> takes no
  argument and always sets the flag; \<open>main\<close> in cmd/client.go assigns \<open>false\<close> to the
  exported field of the game it has just constructed.
\<close>

theorem client_main_changes_flag:
  "IsAuthoritative NewGame \<and> \<not> IsAuthoritative client_main_game"
  by (simp add: client_main_game_def NewGame_def)

text \<open>
  C9, amended. \<open>NewGame\<close> sets the flag to true, and no operation of the backend
  changes it afterwards: not \<open>AddEntity\<close>, \<open>UpdateEntity\<close>, \<open>RemoveEntity\<close>,
  \<open>UpdateLastActionTime\<close>, \<open>Move\<close>, \<open>Perform\<close>, a collision tick, or any run of a
  started game. Only a caller's assignment to the field changes it.
\<close>

theorem IsAuthoritative_kept_by_backend:
  "IsAuthoritative NewGame
   \<and> IsAuthoritative (AddEntity e g) = IsAuthoritative g
   \<and> IsAuthoritative (UpdateEntity e g) = IsAuthoritative g
   \<and> IsAuthoritative (RemoveEntity k g) = IsAuthoritative g
   \<and> IsAuthoritative (UpdateLastActionTime key now g) = IsAuthoritative g
   \<and> (Move k position g = Inr g1 \<longrightarrow> IsAuthoritative g1 = IsAuthoritative g)
   \<and> (Perform a now now' g = Inr g2 \<longrightarrow> IsAuthoritative g2 = IsAuthoritative g)
   \<and> (tick es cs g = Inr g3 \<longrightarrow> IsAuthoritative g3 = IsAuthoritative g)
   \<and> ((step ts)\<^sup>*\<^sup>* g g4 \<longrightarrow> IsAuthoritative g4 = IsAuthoritative g)"
proof -
  have "(step ts)\<^sup>*\<^sup>* g g4 \<Longrightarrow> IsAuthoritative g4 = IsAuthoritative g"
    by (induction rule: rtranclp_induct) (auto dest: step_IsAuthoritative)
  then show ?thesis
    by (auto simp: NewGame_def AddEntity_def UpdateEntity_def RemoveEntity_def
          UpdateLastActionTime_def Move_Inr_iff dest: Perform_frame tick_IsAuthoritative)
qed

theorem IsAuthoritative_kept_by_backend_witness:
  "IsAuthoritative ex_game
   \<and> Move 1 origin ex_game
       = Inr (ex_game\<lparr>Entities := (Entities ex_game)(1 \<mapsto> PlayerPtr (Player (IdentifierBase 1) origin 0))\<rparr>)
   \<and> Perform (MoveAction DirectionStop 1) 0 0 ex_game = Inr ex_throttle_game
   \<and> IsAuthoritative ex_throttle_game
   \<and> tick [1, 10] [Coordinate 3 4] ex_game = Inr ex_game_after_tick
   \<and> IsAuthoritative ex_game_after_tick
   \<and> (step [ActionLoop, CollisionLoop])\<^sup>*\<^sup>* ex_game ex_game_after_tick"
proof -
  have mv: "Move 1 origin ex_game
       = Inr (ex_game\<lparr>Entities := (Entities ex_game)(1 \<mapsto> PlayerPtr (Player (IdentifierBase 1) origin 0))\<rparr>)"
    by (simp add: Move_def ex_game_Entities ex_player_def)
  have pf: "Perform (MoveAction DirectionStop 1) 0 0 ex_game = Inr ex_throttle_game"
    by (simp add: Perform_def GetEntity_def ex_throttle_game_def
        ex_game_Entities ex_game_fields CheckLastActionTime_def Move_def
        offer_def UpdateLastActionTime_def trySend_def channel_capacity_def ex_player_def Let_def)
  have run: "(step [ActionLoop, CollisionLoop])\<^sup>*\<^sup>* ex_game ex_game_after_tick"
    by (rule r_into_rtranclp, rule step.collide[OF _ ex_orders ex_tick]) simp
  show ?thesis
    using mv pf ex_tick run
      IsAuthoritative_kept_by_backend
        [of "BaseVal (IdentifierBase 7)" ex_game 1 "''key''" 0 origin
          "ex_game\<lparr>Entities := (Entities ex_game)(1 \<mapsto> PlayerPtr (Player (IdentifierBase 1) origin 0))\<rparr>"
          "MoveAction DirectionStop 1" 0 ex_throttle_game "[1, 10]" "[Coordinate 3 4]"
          ex_game_after_tick "[ActionLoop, CollisionLoop]" ex_game_after_tick]
    by (simp add: ex_game_fields)
qed

text \<open>
  C6. On a game whose flag is false, \<open>Start\<close> does not launch the collision loop, and in
  every run of the started game, of any length and whatever entities share a cell, the
  score map stays as it was and no RemoveEntityChange or PlayerRespawnChange is offered
  to the change channel.
\<close>

theorem nonauthoritative_game_never_collides:
  assumes "\<not> IsAuthoritative g" and "(step (Start g))\<^sup>*\<^sup>* g g'"
  shows "CollisionLoop \<notin> set (Start g) \<and> Score g' = Score g
     \<and> filter collision_derived (Offered g') = filter collision_derived (Offered g)"
proof -
  have ts: "CollisionLoop \<notin> set (Start g)"
    using assms(1) by (simp add: Start_def)
  from assms(2) have "Score g' = Score g
     \<and> filter collision_derived (Offered g') = filter collision_derived (Offered g)"
  proof (induction rule: rtranclp_induct)
    case base
    then show ?case by simp
  next
    case (step y z)
    with step_without_collision_loop[OF step.hyps(2) ts] show ?case by simp
  qed
  with ts show ?thesis by simp
qed

theorem nonauthoritative_game_never_collides_witness:
  "\<not> IsAuthoritative ex_client_game
   \<and> Position (PlayerPtr ex_player) = Position (LaserPtr ex_laser)
   \<and> Entities ex_client_game 1 = Some (PlayerPtr ex_player)
   \<and> Entities ex_client_game 10 = Some (LaserPtr ex_laser)
   \<and> (step (Start ex_client_game))\<^sup>*\<^sup>* ex_client_game ex_client_game_moved
   \<and> Score ex_client_game_moved = Score ex_client_game
   \<and> filter collision_derived (Offered ex_client_game_moved)
       = filter collision_derived (Offered ex_client_game)"
proof -
  have na: "\<not> IsAuthoritative ex_client_game"
    by (simp add: ex_client_game_def)
  have s1: "step (Start ex_client_game) ex_client_game
              (ex_client_game\<lparr>ActionChannel := ActionChannel ex_client_game @ [MoveAction DirectionUp 1]\<rparr>)"
    by (rule step.submit) (simp add: ex_client_game_def ex_game_fields channel_capacity_def)
  have s2: "step (Start ex_client_game)
              (ex_client_game\<lparr>ActionChannel := ActionChannel ex_client_game @ [MoveAction DirectionUp 1]\<rparr>)
              ex_client_game_moved"
  proof (rule step.perform[where a = "MoveAction DirectionUp 1" and rest = "[]" and now = 0 and now' = 5])
    show "ActionLoop \<in> set (Start ex_client_game)"
      by (simp add: Start_def)
    show "ActionChannel (ex_client_game\<lparr>ActionChannel := ActionChannel ex_client_game @ [MoveAction DirectionUp 1]\<rparr>)
            = [MoveAction DirectionUp 1]"
      by (simp add: ex_client_game_def ex_game_fields)
    show "(0::int) \<le> 5" by simp
    show "Perform (MoveAction DirectionUp 1) 0 5
            (ex_client_game\<lparr>ActionChannel := ActionChannel ex_client_game @ [MoveAction DirectionUp 1]\<rparr>
               \<lparr>ActionChannel := []\<rparr>) = Inr ex_client_game_moved"
      by (simp add: Perform_def GetEntity_def ex_client_game_def ex_client_game_moved_def
            ex_game_Entities ex_game_fields CheckLastActionTime_def Move_def
            offer_def UpdateLastActionTime_def trySend_def channel_capacity_def ex_player_def
            Let_def)
  qed
  have run: "(step (Start ex_client_game))\<^sup>*\<^sup>* ex_client_game ex_client_game_moved"
    using s1 s2 by (rule converse_rtranclp_into_rtranclp[OF _ r_into_rtranclp])
  show ?thesis
    using na run nonauthoritative_game_never_collides [OF na run]
    by (simp add: ex_client_game_def ex_game_Entities ex_player_def ex_laser_def)
qed

section \<open>The collision tick\<close>

subsection \<open>The collision map\<close>

lemma map_filter_Cons:
  "List.map_filter f (x # xs) = (case f x of None \<Rightarrow> List.map_filter f xs | Some y \<Rightarrow> y # List.map_filter f xs)"
  by (simp add: List.map_filter_def split: option.splits)

lemma fold_snapshotEntity:
  "fold (snapshotEntity g) es cm c =
     (if cm c = None \<and> bucket es g c = [] then None
      else Some ((case cm c of None \<Rightarrow> [] | Some l \<Rightarrow> l) @ bucket es g c))"
proof (induction es arbitrary: cm)
  case Nil
  then show ?case by (auto simp: bucket_def List.map_filter_def)
next
  case (Cons k es)
  have b: "bucket (k # es) g c =
      (case Entities g k of None \<Rightarrow> bucket es g c
       | Some e \<Rightarrow> (if Position e = Some c then e # bucket es g c else bucket es g c))"
    by (simp add: bucket_def map_filter_Cons split: option.splits)
  have "fold (snapshotEntity g) (k # es) cm c
          = fold (snapshotEntity g) es (snapshotEntity g k cm) c"
    by simp
  also have "\<dots> =
     (if snapshotEntity g k cm c = None \<and> bucket es g c = [] then None
      else Some ((case snapshotEntity g k cm c of None \<Rightarrow> [] | Some l \<Rightarrow> l) @ bucket es g c))"
    by (rule Cons.IH)
  also have "\<dots> =
     (if cm c = None \<and> bucket (k # es) g c = [] then None
      else Some ((case cm c of None \<Rightarrow> [] | Some l \<Rightarrow> l) @ bucket (k # es) g c))"
    by (simp add: b snapshotEntity_def split: option.splits)
  finally show ?case .
qed

lemma collisionMap_bucket:
  "collisionMap es g c = (if bucket es g c = [] then None else Some (bucket es g c))"
  by (simp add: collisionMap_def fold_snapshotEntity)

lemma set_map_filter: "set (List.map_filter f xs) = {y. \<exists>x\<in>set xs. f x = Some y}"
  by (induction xs) (auto simp: map_filter_Cons List.map_filter_def split: option.splits)

lemma in_bucket:
  "e \<in> set (bucket es g c) \<longleftrightarrow> (\<exists>k\<in>set es. Entities g k = Some e) \<and> Position e = Some c"
  by (auto simp: bucket_def set_map_filter)

subsection \<open>The tick as one loop\<close>

lemma forEach_append:
  "forEach f (xs @ ys) g = (case forEach f xs g of Inl e \<Rightarrow> Inl e | Inr g' \<Rightarrow> forEach f ys g')"
  by (induction xs arbitrary: g) (auto split: sum.splits)

lemma forEach_map: "forEach f (map h xs) g = forEach (\<lambda>x. f (h x)) xs g"
  by (induction xs arbitrary: g) (auto split: sum.splits)

lemma resolveBucket_hits: "resolveBucket b g = forEach resolve (hits b) g"
  by (simp add: resolveBucket_def hits_def forEach_map split: option.splits)

lemma tick_flat: "tick es cs g = forEach resolve (tick_work es cs g) g"
proof -
  have "forEach (\<lambda>c g'. case collisionMap es g c of None \<Rightarrow> Inr g'
                        | Some entities \<Rightarrow> resolveBucket entities g') cs g0
        = forEach resolve (concat (map (\<lambda>c. hits (bucket es g c)) cs)) g0" for g0
  proof (induction cs arbitrary: g0)
    case Nil
    then show ?case by simp
  next
    case (Cons c cs)
    have "(case collisionMap es g c of None \<Rightarrow> Inr g0 | Some entities \<Rightarrow> resolveBucket entities g0)
            = forEach resolve (hits (bucket es g c)) g0"
      by (simp add: collisionMap_bucket resolveBucket_hits hits_def)
    then show ?case
      by (simp add: forEach_append Cons.IH split: sum.splits)
  qed
  then show ?thesis
    by (simp add: tick_def tick_work_def)
qed

subsection \<open>One entity of a bucket\<close>

lemma resolveEntity_Laser:
  "resolveEntity owner (LaserPtr l) g = Inr g' \<longleftrightarrow>
     g' = g\<lparr>Entities := (Entities g)(ID (LaserPtr l) := None),
            ChangeChannel := trySend (RemoveEntityChange (LaserPtr l)) (ChangeChannel g),
            Offered := Offered g @ [RemoveEntityChange (LaserPtr l)]\<rparr>"
  by (auto simp: RemoveEntity_def offer_def)

lemma Move_Inl_iff:
  "Move k c g = Inl x \<longleftrightarrow> (\<forall>e. Entities g k = Some e \<longrightarrow> MoverMove e c = None)"
  by (cases x) (auto simp: Move_def split: option.splits)

lemma distinct_map_head: "distinct (map f (w # ws)) \<Longrightarrow> v \<in> set ws \<Longrightarrow> f v \<noteq> f w"
  by (auto simp: image_iff)

lemma resolveEntity_Player:
  "resolveEntity owner (PlayerPtr p) g = Inr g' \<longleftrightarrow>
     (\<exists>e e'. Entities g (ID (PlayerPtr p)) = Some e \<and> MoverMove e origin = Some e'
        \<and> g' = g\<lparr>Entities := (Entities g)(ID (PlayerPtr p) \<mapsto> e'),
                 ChangeChannel := trySend (PlayerRespawnChange p) (ChangeChannel g),
                 Score := (if ID (PlayerPtr p) \<noteq> owner then bump owner (Score g) else Score g),
                 Offered := Offered g @ [PlayerRespawnChange p]\<rparr>)"
proof (cases "Move (ID (PlayerPtr p)) origin g")
  case (Inl x)
  then have "resolveEntity owner (PlayerPtr p) g = Inl x"
    by simp
  moreover from Inl have "\<forall>e. Entities g (ID (PlayerPtr p)) = Some e \<longrightarrow> MoverMove e origin = None"
    by (simp only: Move_Inl_iff)
  ultimately show ?thesis by auto
next
  case (Inr g1)
  then obtain e e' where e: "Entities g (ID (PlayerPtr p)) = Some e" "MoverMove e origin = Some e'"
    and g1: "g1 = g\<lparr>Entities := (Entities g)(ID (PlayerPtr p) \<mapsto> e')\<rparr>"
    by (auto simp only: Move_Inr_iff)
  have "resolveEntity owner (PlayerPtr p) g =
      Inr (g\<lparr>Entities := (Entities g)(ID (PlayerPtr p) \<mapsto> e'),
                 ChangeChannel := trySend (PlayerRespawnChange p) (ChangeChannel g),
                 Score := (if ID (PlayerPtr p) \<noteq> owner then bump owner (Score g) else Score g),
                 Offered := Offered g @ [PlayerRespawnChange p]\<rparr>)"
    using Inr by (simp add: g1 offer_def incrementScore_def bump_def Let_def)
  with e show ?thesis by auto
qed

lemma resolve_cases:
  assumes "resolve w g = Inr g'"
  shows "Offered g' = Offered g @ offers w"
    and "Score g' = (if scoring w then bump (fst w) (Score g) else Score g)"
    and "ChangeChannel g' = fold trySend (offers w) (ChangeChannel g)"
    and "k \<noteq> ID (snd w) \<Longrightarrow> Entities g' k = Entities g k"
    and "Entities g k = None \<Longrightarrow> Entities g' k = None"
proof -
  obtain owner e where w: "w = (owner, e)"
    by (cases w)
  consider (player) p where "e = PlayerPtr p" | (laser) l where "e = LaserPtr l"
    | (base) b where "e = BaseVal b"
    by (cases e)
  then have "Offered g' = Offered g @ offers w
    \<and> Score g' = (if scoring w then bump (fst w) (Score g) else Score g)
    \<and> ChangeChannel g' = fold trySend (offers w) (ChangeChannel g)
    \<and> (k \<noteq> ID (snd w) \<longrightarrow> Entities g' k = Entities g k)
    \<and> (Entities g k = None \<longrightarrow> Entities g' k = None)"
  proof cases
    case player
    from assms obtain e0 e' where "Entities g (ID (PlayerPtr p)) = Some e0"
      and "g' = g\<lparr>Entities := (Entities g)(ID (PlayerPtr p) \<mapsto> e'),
                 ChangeChannel := trySend (PlayerRespawnChange p) (ChangeChannel g),
                 Score := (if ID (PlayerPtr p) \<noteq> owner then bump owner (Score g) else Score g),
                 Offered := Offered g @ [PlayerRespawnChange p]\<rparr>"
      unfolding w player fst_conv snd_conv resolveEntity_Player by blast
    then show ?thesis
      by (auto simp: w player)
  next
    case laser
    from assms have "g' = g\<lparr>Entities := (Entities g)(ID (LaserPtr l) := None),
            ChangeChannel := trySend (RemoveEntityChange (LaserPtr l)) (ChangeChannel g),
            Offered := Offered g @ [RemoveEntityChange (LaserPtr l)]\<rparr>"
      unfolding w laser fst_conv snd_conv resolveEntity_Laser .
    then show ?thesis
      by (simp add: w laser)
  next
    case base
    with assms w show ?thesis by simp
  qed
  then show "Offered g' = Offered g @ offers w"
    and "Score g' = (if scoring w then bump (fst w) (Score g) else Score g)"
    and "ChangeChannel g' = fold trySend (offers w) (ChangeChannel g)"
    and "k \<noteq> ID (snd w) \<Longrightarrow> Entities g' k = Entities g k"
    and "Entities g k = None \<Longrightarrow> Entities g' k = None"
    by simp_all
qed

lemma resolve_succeeds:
  assumes "Entities g (ID (snd w)) = Some (snd w)"
  shows "\<exists>g'. resolve w g = Inr g'"
proof (cases "snd w")
  case (PlayerPtr p)
  with assms have "Entities g (ID (PlayerPtr p)) = Some (PlayerPtr p)"
    by simp
  moreover have "MoverMove (PlayerPtr p) origin = Some (PlayerPtr (Player (PlayerBase p) origin (Respawns p)))"
    by simp
  ultimately have "\<exists>g'. resolveEntity (fst w) (PlayerPtr p) g = Inr g'"
    unfolding resolveEntity_Player by blast
  with PlayerPtr show ?thesis by simp
next
  case (LaserPtr l)
  then show ?thesis by simp
next
  case (BaseVal b)
  then show ?thesis by simp
qed

subsection \<open>All entities of all buckets\<close>

lemma forEach_resolve_Offered:
  "forEach resolve ws g = Inr g' \<Longrightarrow> Offered g' = Offered g @ concat (map offers ws)"
proof (induction ws arbitrary: g)
  case Nil
  then show ?case by simp
next
  case (Cons w ws)
  then obtain g1 where 1: "resolve w g = Inr g1" and 2: "forEach resolve ws g1 = Inr g'"
    by (auto split: sum.splits)
  show ?case
    using Cons.IH[OF 2] resolve_cases(1)[OF 1] by simp
qed

lemma forEach_resolve_ChangeChannel:
  "forEach resolve ws g = Inr g' \<Longrightarrow>
     ChangeChannel g' = fold trySend (concat (map offers ws)) (ChangeChannel g)"
proof (induction ws arbitrary: g)
  case Nil
  then show ?case by simp
next
  case (Cons w ws)
  then obtain g1 where 1: "resolve w g = Inr g1" and 2: "forEach resolve ws g1 = Inr g'"
    by (auto split: sum.splits)
  show ?case
    using Cons.IH[OF 2] resolve_cases(3)[OF 1] by simp
qed

lemma forEach_resolve_Score:
  "forEach resolve ws g = Inr g' \<Longrightarrow>
     Score g' = fold bump (map fst (filter scoring ws)) (Score g)"
proof (induction ws arbitrary: g)
  case Nil
  then show ?case by simp
next
  case (Cons w ws)
  then obtain g1 where 1: "resolve w g = Inr g1" and 2: "forEach resolve ws g1 = Inr g'"
    by (auto split: sum.splits)
  show ?case
    using Cons.IH[OF 2] resolve_cases(2)[OF 1] by simp
qed

lemma forEach_resolve_other_keys:
  "forEach resolve ws g = Inr g' \<Longrightarrow> k \<notin> ID ` snd ` set ws \<Longrightarrow> Entities g' k = Entities g k"
proof (induction ws arbitrary: g)
  case Nil
  then show ?case by simp
next
  case (Cons w ws)
  then obtain g1 where 1: "resolve w g = Inr g1" and 2: "forEach resolve ws g1 = Inr g'"
    by (auto split: sum.splits)
  have "Entities g1 k = Entities g k"
    using Cons.prems(2) by (intro resolve_cases(4)[OF 1]) auto
  moreover have "Entities g' k = Entities g1 k"
    using Cons.prems(2) by (intro Cons.IH[OF 2]) auto
  ultimately show ?case by simp
qed



lemma forEach_resolve_moves_player:
  "forEach resolve ws g = Inr g' \<Longrightarrow> (owner, PlayerPtr p) \<in> set ws \<Longrightarrow>
   distinct (map (\<lambda>w. ID (snd w)) ws) \<Longrightarrow> Entities g (ID (PlayerPtr p)) = Some (PlayerPtr p) \<Longrightarrow>
     Entities g' (ID (PlayerPtr p)) = Some (PlayerPtr (Player (PlayerBase p) origin (Respawns p)))"
proof (induction ws arbitrary: g)
  case Nil
  then show ?case by simp
next
  case (Cons w ws)
  then obtain g1 where 1: "resolve w g = Inr g1" and 2: "forEach resolve ws g1 = Inr g'"
    by (auto split: sum.splits)
  show ?case
  proof (cases "w = (owner, PlayerPtr p)")
    case True
    with 1 have "resolveEntity owner (PlayerPtr p) g = Inr g1"
      by simp
    then obtain e e' where "Entities g (ID (PlayerPtr p)) = Some e" "MoverMove e origin = Some e'"
      "Entities g1 (ID (PlayerPtr p)) = Some e'"
      unfolding resolveEntity_Player by auto
    with Cons.prems(4)
    have "Entities g1 (ID (PlayerPtr p)) = Some (PlayerPtr (Player (PlayerBase p) origin (Respawns p)))"
      by auto
    moreover have "ID (PlayerPtr p) \<notin> ID ` snd ` set ws"
      using Cons.prems(3) True by auto
    ultimately show ?thesis
      using forEach_resolve_other_keys[OF 2] by simp
  next
    case False
    with Cons.prems(2) have in_ws: "(owner, PlayerPtr p) \<in> set ws" by simp
    then have "ID (snd w) \<noteq> ID (PlayerPtr p)"
      using distinct_map_head[OF Cons.prems(3), of "(owner, PlayerPtr p)"] by auto
    then have "Entities g1 (ID (PlayerPtr p)) = Some (PlayerPtr p)"
      using resolve_cases(4)[OF 1] Cons.prems(4) by simp
    with Cons.IH[OF 2 in_ws] Cons.prems(3) show ?thesis by simp
  qed
qed

lemma forEach_resolve_succeeds:
  "distinct (map (\<lambda>w. ID (snd w)) ws) \<Longrightarrow>
   \<forall>w\<in>set ws. Entities g (ID (snd w)) = Some (snd w) \<Longrightarrow> \<exists>g'. forEach resolve ws g = Inr g'"
proof (induction ws arbitrary: g)
  case Nil
  then show ?case by simp
next
  case (Cons w ws)
  from Cons.prems(2) obtain g1 where 1: "resolve w g = Inr g1"
    using resolve_succeeds[of g w] by auto
  have "\<forall>v\<in>set ws. Entities g1 (ID (snd v)) = Some (snd v)"
  proof
    fix v assume v: "v \<in> set ws"
    then have "ID (snd v) \<noteq> ID (snd w)"
      using distinct_map_head[OF Cons.prems(1)] by blast
    then show "Entities g1 (ID (snd v)) = Some (snd v)"
      using resolve_cases(4)[OF 1] Cons.prems(2) v by simp
  qed
  with Cons.IH[of g1] Cons.prems(1) obtain g' where "forEach resolve ws g1 = Inr g'"
    by auto
  with 1 show ?case by simp
qed

subsection \<open>The entities that a tick resolves\<close>

lemma findLaser_Some: "findLaser b = Some owner \<Longrightarrow> \<exists>l. LaserPtr l \<in> set b \<and> OwnerID l = owner"
  by (induction b rule: findLaser.induct) auto


lemma two_in_list: "x \<in> set b \<Longrightarrow> y \<in> set b \<Longrightarrow> x \<noteq> y \<Longrightarrow> 1 < length b"
  by (cases b; cases "tl b") auto

lemma in_hits:
  "w \<in> set (hits b) \<longleftrightarrow> snd w \<in> set b \<and> 1 < length b \<and> findLaser b = Some (fst w)"
  by (cases w) (auto simp: hits_def split: option.splits)

lemma in_tick_work:
  "w \<in> set (tick_work es cs g) \<longleftrightarrow>
     (\<exists>c\<in>set cs. snd w \<in> set (bucket es g c) \<and> 1 < length (bucket es g c)
        \<and> findLaser (bucket es g c) = Some (fst w))"
  by (simp add: tick_work_def in_hits)

lemma map_ID_hits: "map (\<lambda>w. ID (snd w)) (hits b) = (if hits b = [] then [] else map ID b)"
  by (simp add: hits_def comp_def split: option.splits)

lemma map_ID_snapshot:
  "store_inv g \<Longrightarrow> map ID (List.map_filter (Entities g) es) = filter (\<lambda>k. Entities g k \<noteq> None) es"
  by (induction es) (auto simp: map_filter_Cons List.map_filter_def store_inv_def split: option.splits)

lemma distinct_bucket: "store_inv g \<Longrightarrow> distinct es \<Longrightarrow> distinct (map ID (bucket es g c))"
  unfolding bucket_def by (rule distinct_map_filter) (simp add: map_ID_snapshot)

lemma bucket_stored: "store_inv g \<Longrightarrow> e \<in> set (bucket es g c) \<Longrightarrow> Entities g (ID e) = Some e"
  by (auto simp: in_bucket store_inv_def)

lemma tick_work_stored:
  "store_inv g \<Longrightarrow> w \<in> set (tick_work es cs g) \<Longrightarrow> Entities g (ID (snd w)) = Some (snd w)"
  by (auto simp: in_tick_work dest: bucket_stored)

lemma tick_work_position:
  "w \<in> set (tick_work es cs g) \<Longrightarrow> \<exists>c\<in>set cs. Position (snd w) = Some c"
  by (auto simp: in_tick_work in_bucket)

lemma distinct_tick_work:
  assumes "store_inv g" and "distinct es"
  shows "distinct cs \<Longrightarrow> distinct (map (\<lambda>w. ID (snd w)) (tick_work es cs g))"
proof (induction cs)
  case Nil
  then show ?case by (simp add: tick_work_def)
next
  case (Cons c cs)
  have split: "tick_work es (c # cs) g = hits (bucket es g c) @ tick_work es cs g"
    by (simp add: tick_work_def)
  have head: "distinct (map (\<lambda>w. ID (snd w)) (hits (bucket es g c)))"
    using distinct_bucket[OF assms] by (simp add: map_ID_hits)
  have disjoint: "ID (snd w) \<noteq> ID (snd v)"
    if w: "w \<in> set (hits (bucket es g c))" and v: "v \<in> set (tick_work es cs g)" for w v
  proof
    assume eq: "ID (snd w) = ID (snd v)"
    from w have "w \<in> set (tick_work es [c] g)"
      by (simp add: tick_work_def)
    then have wc: "Position (snd w) = Some c" and ws: "Entities g (ID (snd w)) = Some (snd w)"
      using tick_work_position[of w es "[c]" g] tick_work_stored[OF assms(1), of w es "[c]"]
      by auto
    from v obtain c' where c': "c' \<in> set cs" "Position (snd v) = Some c'"
      using tick_work_position by blast
    from v have "Entities g (ID (snd v)) = Some (snd v)"
      by (rule tick_work_stored[OF assms(1)])
    with ws eq have "snd w = snd v" by simp
    with wc c' have "c \<in> set cs" by simp
    with Cons.prems show False by simp
  qed
  have tail: "distinct (map (\<lambda>w. ID (snd w)) (tick_work es cs g))"
    using Cons by simp
  have inter: "set (map (\<lambda>w. ID (snd w)) (hits (bucket es g c)))
                 \<inter> set (map (\<lambda>w. ID (snd w)) (tick_work es cs g)) = {}"
  proof (rule Int_emptyI)
    fix x
    assume "x \<in> set (map (\<lambda>w. ID (snd w)) (hits (bucket es g c)))"
      and "x \<in> set (map (\<lambda>w. ID (snd w)) (tick_work es cs g))"
    then obtain w v where "w \<in> set (hits (bucket es g c))" "x = ID (snd w)"
      "v \<in> set (tick_work es cs g)" "x = ID (snd v)"
      by auto
    with disjoint[of w v] show False by simp
  qed
  show ?case
    unfolding split map_append distinct_append using head tail inter by blast
qed

lemma tick_returns:
  assumes "store_inv g" and "distinct es" and "distinct cs"
  shows "\<exists>g'. tick es cs g = Inr g'"
  unfolding tick_flat
proof (rule forEach_resolve_succeeds)
  show "distinct (map (\<lambda>w. ID (snd w)) (tick_work es cs g))"
    by (rule distinct_tick_work[OF assms])
  show "\<forall>w\<in>set (tick_work es cs g). Entities g (ID (snd w)) = Some (snd w)"
    using tick_work_stored[OF assms(1)] by blast
qed

lemma distinct_tick_work_pairs:
  "store_inv g \<Longrightarrow> distinct es \<Longrightarrow> distinct cs \<Longrightarrow> distinct (tick_work es cs g)"
  using distinct_tick_work[of g es cs] unfolding distinct_map by blast

lemma scoring_Player: "scoring w \<Longrightarrow> \<exists>p. snd w = PlayerPtr p \<and> ID (PlayerPtr p) \<noteq> fst w"
proof -
  obtain owner e where w: "w = (owner, e)" by (cases w)
  assume "scoring w"
  with w show ?thesis by (cases e) simp_all
qed

lemma stored_in_tick_work:
  assumes "iteration_order es (Entities g)" and "iteration_order cs (collisionMap es g)"
    and "Entities g k = Some e" and "Position e = Some c"
    and "1 < length (bucket es g c)" and "findLaser (bucket es g c) = Some owner"
  shows "(owner, e) \<in> set (tick_work es cs g)"
proof -
  from assms(1,3) have "k \<in> set es"
    by (auto simp: iteration_order_def)
  with assms(3,4) have e: "e \<in> set (bucket es g c)"
    by (auto simp: in_bucket)
  from assms(5) have "bucket es g c \<noteq> []" by auto
  then have "collisionMap es g c \<noteq> None"
    by (simp add: collisionMap_bucket)
  with assms(2) have "c \<in> set cs"
    by (auto simp: iteration_order_def)
  with e assms(5,6) show ?thesis
    by (auto simp: in_tick_work)
qed

lemma fold_trySend:
  "fold trySend xs ch = (if ch = [] then take 1 xs else ch)"
  by (induction xs arbitrary: ch) (auto simp: trySend_def channel_capacity_def)

lemmas ex_defs =
  ex_game_def ex_crowded_game_def ex_self_game_def ex_self_crowded_game_def
  ex_player_def ex_laser_def ex_other_player_def ex_own_laser_def AddEntity_def NewGame_def

lemmas tick_defs =
  tick_def collisionMap_def snapshotEntity_def resolveBucket_def Move_def offer_def
  RemoveEntity_def incrementScore_def trySend_def channel_capacity_def scoreOf_def origin_def
  Let_def


lemma ex_self_tick:
  "tick [1, 10] [Coordinate 3 4] ex_self_game = Inr ex_self_after_tick"
  by (simp add: tick_defs ex_defs ex_self_after_tick_def)

lemma ex_self_crowded_tick:
  "tick [1, 3, 10] [Coordinate 3 4] ex_self_crowded_game = Inr ex_self_crowded_after_tick"
  by (simp add: tick_defs ex_defs ex_self_crowded_after_tick_def)

lemma ex_self_game_Entities:
  "Entities ex_self_game = [1 \<mapsto> PlayerPtr ex_player, 10 \<mapsto> LaserPtr ex_own_laser]"
  by (simp add: ex_self_game_def AddEntity_def NewGame_def ex_player_def ex_own_laser_def)

subsection \<open>The score after a tick\<close>

lemma first_laser_Nil [simp]: "\<not> first_laser [] laser"
  by (simp add: first_laser_def)

lemma first_laser_Laser [simp]: "first_laser (LaserPtr l # b) laser \<longleftrightarrow> laser = l"
proof
  assume "first_laser (LaserPtr l # b) laser"
  then obtain before after where eq: "LaserPtr l # b = before @ LaserPtr laser # after"
    and none: "\<forall>l'. LaserPtr l' \<notin> set before"
    unfolding first_laser_def by blast
  show "laser = l"
  proof (cases before)
    case Nil
    with eq show ?thesis by simp
  next
    case (Cons x xs)
    with eq have "x = LaserPtr l" by simp
    with none Cons show ?thesis by auto
  qed
next
  assume "laser = l"
  then have "LaserPtr l # b = [] @ LaserPtr laser # b \<and> (\<forall>l'. LaserPtr l' \<notin> set [])"
    by simp
  then show "first_laser (LaserPtr l # b) laser"
    unfolding first_laser_def by blast
qed

lemma first_laser_skip:
  assumes "\<forall>l. e \<noteq> LaserPtr l"
  shows "first_laser (e # b) laser \<longleftrightarrow> first_laser b laser"
proof
  assume "first_laser (e # b) laser"
  then obtain before after where eq: "e # b = before @ LaserPtr laser # after"
    and none: "\<forall>l'. LaserPtr l' \<notin> set before"
    unfolding first_laser_def by blast
  from eq assms obtain xs where "before = e # xs"
    by (cases before) auto
  with eq none have "b = xs @ LaserPtr laser # after \<and> (\<forall>l'. LaserPtr l' \<notin> set xs)"
    by simp
  then show "first_laser b laser"
    unfolding first_laser_def by blast
next
  assume "first_laser b laser"
  then obtain before after where "b = before @ LaserPtr laser # after"
    and "\<forall>l'. LaserPtr l' \<notin> set before"
    unfolding first_laser_def by blast
  with assms have "e # b = (e # before) @ LaserPtr laser # after
      \<and> (\<forall>l'. LaserPtr l' \<notin> set (e # before))"
    by auto
  then show "first_laser (e # b) laser"
    unfolding first_laser_def by blast
qed

lemma first_laser_Player [simp]: "first_laser (PlayerPtr p # b) laser \<longleftrightarrow> first_laser b laser"
  by (rule first_laser_skip) simp

lemma first_laser_Base [simp]: "first_laser (BaseVal x # b) laser \<longleftrightarrow> first_laser b laser"
  by (rule first_laser_skip) simp

lemma findLaser_first_laser:
  "findLaser b = Some owner \<longleftrightarrow> (\<exists>laser. first_laser b laser \<and> OwnerID laser = owner)"
  by (induction b rule: findLaser.induct) auto

lemma first_laser_in: "first_laser b laser \<Longrightarrow> LaserPtr laser \<in> set b"
  by (auto simp: first_laser_def)

lemma fold_bump:
  "fold bump os s k =
     (if k \<in> set os then Some (scoreOf s k + of_nat (count_list os k)) else s k)"
proof (induction os arbitrary: s)
  case Nil
  then show ?case by simp
next
  case (Cons a os)
  have "fold bump (a # os) s k = fold bump os (bump a s) k"
    by simp
  also have "\<dots> = (if k \<in> set os then Some (scoreOf (bump a s) k + of_nat (count_list os k))
                   else bump a s k)"
    by (rule Cons.IH)
  also have "\<dots> = (if k \<in> set (a # os)
                   then Some (scoreOf s k + of_nat (count_list (a # os) k)) else s k)"
    by (simp add: bump_def scoreOf_def)
  finally show ?case .
qed

lemma count_list_map_fst:
  "count_list (map fst xs) k = length (filter (\<lambda>w. fst w = k) xs)"
  by (induction xs) auto

lemma scoring_entries_image:
  assumes inv: "store_inv g"
    and es: "iteration_order es (Entities g)" and cs: "iteration_order cs (collisionMap es g)"
  shows "(\<lambda>w. ID (snd w)) ` {w \<in> set (tick_work es cs g). scoring w \<and> fst w = k}
           = scores_for es g k"
proof (intro equalityI subsetI)
  fix q
  assume "q \<in> (\<lambda>w. ID (snd w)) ` {w \<in> set (tick_work es cs g). scoring w \<and> fst w = k}"
  then obtain w where w: "w \<in> set (tick_work es cs g)" and sc: "scoring w"
    and k: "fst w = k" and q: "q = ID (snd w)"
    by blast
  from sc obtain p where p: "snd w = PlayerPtr p" and ne: "ID (PlayerPtr p) \<noteq> fst w"
    using scoring_Player by blast
  from w obtain c where c: "PlayerPtr p \<in> set (bucket es g c)"
    and fl: "findLaser (bucket es g c) = Some k"
    by (auto simp: in_tick_work p k)
  from c have pos: "c = CurrentPosition p"
    by (simp add: in_bucket)
  from c have cm: "collisionMap es g c = Some (bucket es g c)"
    by (auto simp: collisionMap_bucket)
  from fl obtain laser where "first_laser (bucket es g c) laser" "OwnerID laser = k"
    unfolding findLaser_first_laser by blast
  moreover have "Entities g q = Some (PlayerPtr p)"
    using bucket_stored[OF inv c] by (simp add: q p)
  ultimately show "q \<in> scores_for es g k"
    unfolding scores_for_def using cm ne by (auto simp: pos q p k)
next
  fix q
  assume "q \<in> scores_for es g k"
  then obtain p b laser where st: "Entities g q = Some (PlayerPtr p)"
    and cm: "collisionMap es g (CurrentPosition p) = Some b"
    and fl: "first_laser b laser" and own: "OwnerID laser = k" and ne: "q \<noteq> k"
    unfolding scores_for_def by blast
  let ?c = "CurrentPosition p"
  from cm have b: "b = bucket es g ?c"
    by (simp add: collisionMap_bucket split: if_splits)
  from inv st have idq: "ID (PlayerPtr p) = q"
    unfolding store_inv_def by blast
  from es st have "q \<in> set es"
    by (auto simp: iteration_order_def)
  with st have inb: "PlayerPtr p \<in> set (bucket es g ?c)"
    by (auto simp: in_bucket)
  have "LaserPtr laser \<in> set (bucket es g ?c)"
    using first_laser_in[OF fl] by (simp add: b)
  with inb have len: "1 < length (bucket es g ?c)"
    by (rule two_in_list) simp
  have "findLaser (bucket es g ?c) = Some k"
    unfolding findLaser_first_laser using fl own b by blast
  with es cs st len have "(k, PlayerPtr p) \<in> set (tick_work es cs g)"
    by (intro stored_in_tick_work[where k = q]) simp_all
  moreover have "scoring (k, PlayerPtr p)"
    using idq ne by simp
  ultimately have "(k, PlayerPtr p) \<in> {w \<in> set (tick_work es cs g). scoring w \<and> fst w = k}"
    by simp
  then have "ID (snd (k, PlayerPtr p))
      \<in> (\<lambda>w. ID (snd w)) ` {w \<in> set (tick_work es cs g). scoring w \<and> fst w = k}"
    by (rule imageI)
  then show "q \<in> (\<lambda>w. ID (snd w)) ` {w \<in> set (tick_work es cs g). scoring w \<and> fst w = k}"
    using idq by (simp only: snd_conv)
qed

lemma tick_Score:
  assumes inv: "store_inv g"
    and es: "iteration_order es (Entities g)" and cs: "iteration_order cs (collisionMap es g)"
    and t: "tick es cs g = Inr g'"
  shows "Score g' k =
     (if scores_for es g k = {} then Score g k
      else Some (scoreOf (Score g) k + of_nat (card (scores_for es g k))))"
proof -
  let ?ws = "tick_work es cs g"
  let ?A = "{w \<in> set ?ws. scoring w \<and> fst w = k}"
  have des: "distinct es" and dcs: "distinct cs"
    using es cs by (simp_all add: iteration_order_def)
  have dist: "distinct ?ws"
    by (rule distinct_tick_work_pairs[OF inv des dcs])
  have "inj_on (\<lambda>w. ID (snd w)) (set ?ws)"
    using distinct_tick_work[OF inv des dcs] by (simp add: distinct_map)
  then have "inj_on (\<lambda>w. ID (snd w)) ?A"
    by (rule inj_on_subset) blast
  then have "card ((\<lambda>w. ID (snd w)) ` ?A) = card ?A"
    by (rule card_image)
  then have card: "card (scores_for es g k) = card ?A"
    by (simp only: scoring_entries_image[OF inv es cs])
  have "count_list (map fst (filter scoring ?ws)) k
          = length (filter (\<lambda>w. scoring w \<and> fst w = k) ?ws)"
    by (simp add: count_list_map_fst)
  also have "\<dots> = card ({w. scoring w \<and> fst w = k} \<inter> set ?ws)"
    using dist by (rule distinct_length_filter)
  also have "{w. scoring w \<and> fst w = k} \<inter> set ?ws = ?A"
    by blast
  finally have count: "count_list (map fst (filter scoring ?ws)) k = card (scores_for es g k)"
    by (simp only: card)
  have "k \<in> set (map fst (filter scoring ?ws)) \<longleftrightarrow> ?A \<noteq> {}"
    by force
  also have "\<dots> \<longleftrightarrow> (\<lambda>w. ID (snd w)) ` ?A \<noteq> {}"
    by simp
  finally have mem: "k \<in> set (map fst (filter scoring ?ws)) \<longleftrightarrow> scores_for es g k \<noteq> {}"
    by (simp only: scoring_entries_image[OF inv es cs])
  from t have "forEach resolve ?ws g = Inr g'"
    by (simp only: tick_flat)
  then have "Score g' = fold bump (map fst (filter scoring ?ws)) (Score g)"
    by (rule forEach_resolve_Score)
  then show ?thesis
    by (simp only: fold_bump mem count) simp
qed




text \<open>
  C4, as stated, fails in its last part: the score map need not stay unchanged. With a
  second player on the cell of a player and that player's own laser, one tick respawns
  both players and gives the owner a point for the other one.
\<close>

theorem self_hit_with_bystander_scores:
  "store_inv ex_self_crowded_game
   \<and> iteration_order [1, 3, 10] (Entities ex_self_crowded_game)
   \<and> iteration_order [Coordinate 3 4] (collisionMap [1, 3, 10] ex_self_crowded_game)
   \<and> Entities ex_self_crowded_game 10 = Some (LaserPtr ex_own_laser)
   \<and> Entities ex_self_crowded_game 1 = Some (PlayerPtr ex_player)
   \<and> CurrentPosition ex_player = LaserPosition ex_own_laser
   \<and> OwnerID ex_own_laser = ID (PlayerPtr ex_player)
   \<and> map_option findLaser (collisionMap [1, 3, 10] ex_self_crowded_game (CurrentPosition ex_player))
       = Some (Some 1)
   \<and> tick [1, 3, 10] [Coordinate 3 4] ex_self_crowded_game = Inr ex_self_crowded_after_tick
   \<and> Entities ex_self_crowded_after_tick 1 = Some (PlayerPtr (Player (IdentifierBase 1) origin 0))
   \<and> Score ex_self_crowded_game 1 = None
   \<and> Score ex_self_crowded_after_tick 1 = Some 1"
proof -
  have "store_inv ex_self_crowded_game"
    by (simp add: store_inv_def ex_defs)
  moreover have "iteration_order [1, 3, 10] (Entities ex_self_crowded_game)"
    by (auto simp: iteration_order_def ex_defs split: if_splits)
  moreover have "iteration_order [Coordinate 3 4] (collisionMap [1, 3, 10] ex_self_crowded_game)"
    by (auto simp: iteration_order_def collisionMap_def snapshotEntity_def ex_defs split: if_splits)
  moreover have "map_option findLaser
      (collisionMap [1, 3, 10] ex_self_crowded_game (CurrentPosition ex_player)) = Some (Some 1)"
    by (simp add: collisionMap_def snapshotEntity_def ex_defs)
  ultimately show ?thesis
    using ex_self_crowded_tick
    by (simp add: ex_self_crowded_after_tick_def)
       (simp add: ex_defs)
qed

text \<open>
  C4, amended. In a game that satisfies the store invariant, with a Player on a cell
  whose bucket has as its first Laser one owned by that very Player, one tick of the
  collision loop, for every iteration order of the two maps, returns; the Player is
  stored at the origin; a PlayerRespawnChange for the Player is among the Changes
  offered during the tick. The Player counts for no owner, so the hit on it adds nothing
  to any score. The score of every owner grows by the number of stored Players that
  count for that owner (another Player on the cell does count for the Player), and the
  score map is unchanged when no Player counts for any owner.
\<close>

theorem self_hit_does_not_score:
  assumes "store_inv g"
    and "iteration_order es (Entities g)" and "iteration_order cs (collisionMap es g)"
    and "Entities g p1 = Some (PlayerPtr P)"
    and "collisionMap es g (CurrentPosition P) = Some b"
    and "first_laser b laser" and "OwnerID laser = p1"
  shows "\<exists>g'. tick es cs g = Inr g'
     \<and> Entities g' p1 = Some (PlayerPtr (Player (PlayerBase P) origin (Respawns P)))
     \<and> (\<exists>offered. Offered g' = Offered g @ offered
           \<and> PlayerRespawnChange P \<in> set offered
           \<and> ChangeChannel g' = (if ChangeChannel g = [] then take 1 offered else ChangeChannel g))
     \<and> (\<forall>owner. p1 \<notin> scores_for es g owner)
     \<and> (\<forall>k. Score g' k =
            (if scores_for es g k = {} then Score g k
             else Some (scoreOf (Score g) k + of_nat (card (scores_for es g k)))))
     \<and> ((\<forall>owner. scores_for es g owner = {}) \<longrightarrow> Score g' = Score g)"
proof -
  let ?c = "CurrentPosition P"
  let ?ws = "tick_work es cs g"
  have b: "b = bucket es g ?c"
    using assms(5) by (simp add: collisionMap_bucket split: if_splits)
  have des: "distinct es" and dcs: "distinct cs"
    using assms(2,3) by (simp_all add: iteration_order_def)
  have idP: "ID (PlayerPtr P) = p1"
    using assms(1,4) unfolding store_inv_def by blast
  have inP: "PlayerPtr P \<in> set b"
    using assms(2,4) by (auto simp: b in_bucket iteration_order_def)
  have fl: "findLaser b = Some p1"
    unfolding findLaser_first_laser using assms(6,7) by blast
  have len: "1 < length (bucket es g ?c)"
    using inP first_laser_in[OF assms(6)] unfolding b by (rule two_in_list) simp
  have wP: "(p1, PlayerPtr P) \<in> set ?ws"
    using assms(2,3,4) _ len fl[unfolded b] by (rule stored_in_tick_work) simp
  obtain g' where t: "tick es cs g = Inr g'"
    using tick_returns[OF assms(1) des dcs] by blast
  then have g': "forEach resolve ?ws g = Inr g'"
    by (simp only: tick_flat)
  have dist: "distinct (map (\<lambda>w. ID (snd w)) ?ws)"
    by (rule distinct_tick_work[OF assms(1) des dcs])
  have moved: "Entities g' p1 = Some (PlayerPtr (Player (PlayerBase P) origin (Respawns P)))"
    using forEach_resolve_moves_player[OF g' wP dist] assms(4) by (simp only: idP)
  let ?offered = "concat (map offers ?ws)"
  have off: "Offered g' = Offered g @ ?offered"
    by (rule forEach_resolve_Offered[OF g'])
  have offP: "PlayerRespawnChange P \<in> set ?offered"
    using wP by (auto intro!: bexI[of _ "(p1, PlayerPtr P)"])
  have chan: "ChangeChannel g' = (if ChangeChannel g = [] then take 1 ?offered else ChangeChannel g)"
    using forEach_resolve_ChangeChannel[OF g'] by (simp only: fold_trySend)
  have no_credit: "\<forall>owner. p1 \<notin> scores_for es g owner"
  proof (intro allI notI)
    fix owner
    assume "p1 \<in> scores_for es g owner"
    then obtain laser' where "first_laser b laser'" "OwnerID laser' = owner" "p1 \<noteq> owner"
      using assms(4,5) by (auto simp: scores_for_def)
    then have "findLaser b = Some owner"
      unfolding findLaser_first_laser by blast
    with fl \<open>p1 \<noteq> owner\<close> show False by simp
  qed
  have score: "\<forall>k. Score g' k =
            (if scores_for es g k = {} then Score g k
             else Some (scoreOf (Score g) k + of_nat (card (scores_for es g k))))"
    using tick_Score[OF assms(1,2,3) t] by blast
  have same: "Score g' = Score g" if "\<forall>owner. scores_for es g owner = {}"
    using score that by (intro ext) simp
  show ?thesis
    using t moved off offP chan no_credit score same by blast
qed

theorem self_hit_does_not_score_witness:
  "store_inv ex_self_game
   \<and> iteration_order [1, 10] (Entities ex_self_game)
   \<and> iteration_order [Coordinate 3 4] (collisionMap [1, 10] ex_self_game)
   \<and> Entities ex_self_game 1 = Some (PlayerPtr ex_player)
   \<and> collisionMap [1, 10] ex_self_game (CurrentPosition ex_player)
       = Some [PlayerPtr ex_player, LaserPtr ex_own_laser]
   \<and> first_laser [PlayerPtr ex_player, LaserPtr ex_own_laser] ex_own_laser
   \<and> OwnerID ex_own_laser = 1
   \<and> (\<forall>owner. scores_for [1, 10] ex_self_game owner = {})
   \<and> tick [1, 10] [Coordinate 3 4] ex_self_game = Inr ex_self_after_tick
   \<and> Entities ex_self_after_tick 1 = Some (PlayerPtr (Player (IdentifierBase 1) origin 0))
   \<and> Offered ex_self_after_tick
       = Offered ex_self_game
           @ [PlayerRespawnChange ex_player, RemoveEntityChange (LaserPtr ex_own_laser)]
   \<and> Score ex_self_after_tick = Score ex_self_game"
proof -
  have inv: "store_inv ex_self_game"
    by (simp add: store_inv_def ex_self_game_Entities ex_player_def ex_own_laser_def)
  have orders: "iteration_order [1, 10] (Entities ex_self_game)"
    "iteration_order [Coordinate 3 4] (collisionMap [1, 10] ex_self_game)"
    by (auto simp: iteration_order_def ex_self_game_Entities collisionMap_def snapshotEntity_def
          ex_player_def ex_own_laser_def split: if_splits)
  have h: "Entities ex_self_game 1 = Some (PlayerPtr ex_player)"
    "collisionMap [1, 10] ex_self_game (CurrentPosition ex_player)
       = Some [PlayerPtr ex_player, LaserPtr ex_own_laser]"
    "first_laser [PlayerPtr ex_player, LaserPtr ex_own_laser] ex_own_laser"
    "OwnerID ex_own_laser = 1"
    by (simp_all add: ex_self_game_Entities collisionMap_def snapshotEntity_def)
       (simp_all add: ex_player_def ex_own_laser_def)
  have none: "\<forall>owner. scores_for [1, 10] ex_self_game owner = {}"
    by (auto simp: scores_for_def ex_self_game_Entities collisionMap_def snapshotEntity_def
          ex_player_def ex_own_laser_def split: if_splits)
  from self_hit_does_not_score [OF inv orders h]
  have "Entities ex_self_after_tick 1
         = Some (PlayerPtr (Player (PlayerBase ex_player) origin (Respawns ex_player)))
     \<and> Score ex_self_after_tick = Score ex_self_game"
    using none by (auto simp: ex_self_tick)
  moreover have "Player (PlayerBase ex_player) origin (Respawns ex_player)
      = Player (IdentifierBase 1) origin 0"
    by (simp add: ex_player_def)
  moreover have "Offered ex_self_after_tick
       = Offered ex_self_game
           @ [PlayerRespawnChange ex_player, RemoveEntityChange (LaserPtr ex_own_laser)]"
    by (simp add: ex_self_after_tick_def ex_self_game_def AddEntity_def NewGame_def)
  ultimately show ?thesis
    using h none inv orders ex_self_tick by simp
qed

end
